theory Spec2Isabelle
  imports Main
begin

section \<open>Strings\<close>

text \<open>
  The page objects work on JavaScript strings. They are modelled as lists of ASCII
  characters. \<open>toLowerCase\<close> maps the letters A to Z to a to z and leaves every other
  character alone; \<open>str_includes\<close> is \<^verbatim>\<open>String.prototype.includes\<close> (a contiguous
  substring test, true for the empty pattern); \<open>trim\<close> removes the ASCII white space
  (tab, line feed, vertical tab, form feed, carriage return, space) at both ends.
\<close>

definition toLowerChar :: "char \<Rightarrow> char" where
  "toLowerChar c =
     (case map_of (zip ''ABCDEFGHIJKLMNOPQRSTUVWXYZ'' ''abcdefghijklmnopqrstuvwxyz'') c of
        Some l \<Rightarrow> l
      | None \<Rightarrow> c)"

definition toLowerCase :: "string \<Rightarrow> string" where
  "toLowerCase s = map toLowerChar s"

fun startsWith :: "string \<Rightarrow> string \<Rightarrow> bool" where
  "startsWith s [] = True"
| "startsWith [] (p # ps) = False"
| "startsWith (c # cs) (p # ps) = (c = p \<and> startsWith cs ps)"

fun str_includes :: "string \<Rightarrow> string \<Rightarrow> bool" where
  "str_includes [] p = (p = [])"
| "str_includes (c # cs) p = (startsWith (c # cs) p \<or> str_includes cs p)"

definition isWhiteSpace :: "char \<Rightarrow> bool" where
  "isWhiteSpace c = (c \<in> set [CHR 0x09, CHR 0x0A, CHR 0x0B, CHR 0x0C, CHR 0x0D, CHR '' ''])"

definition trim :: "string \<Rightarrow> string" where
  "trim s = rev (dropWhile isWhiteSpace (rev (dropWhile isWhiteSpace s)))"

text \<open>
  JavaScript truthiness of a \<^verbatim>\<open>string | null\<close>: \<^verbatim>\<open>null\<close> and the empty string are falsy.
  \<open>orEmpty\<close> is the idiom \<^verbatim>\<open>x || ''\<close>.
\<close>

definition truthy :: "string option \<Rightarrow> bool" where
  "truthy v = (case v of None \<Rightarrow> False | Some s \<Rightarrow> s \<noteq> [])"

definition orEmpty :: "string option \<Rightarrow> string" where
  "orEmpty v = (case v of None \<Rightarrow> [] | Some s \<Rightarrow> s)"

section \<open>The page as the automation engine shows it\<close>

text \<open>
  The locators the page objects build (\<^verbatim>\<open>src/pages/base-search-page.ts\<close>,
  \<^verbatim>\<open>src/pages/admin-user-search-page.ts\<close>, \<^verbatim>\<open>src/utils/constants.ts\<close>):
  \<^item> \<open>SearchButton\<close>: \<^verbatim>\<open>button[type="submit"]:has-text("Search")\<close>
  \<^item> \<open>ResetButton\<close>: \<^verbatim>\<open>button[type="button"]:has-text("Reset")\<close>
  \<^item> \<open>SearchPanel\<close>: \<^verbatim>\<open>.oxd-table-filter-area\<close>
  \<^item> \<open>FilterToggle\<close>: \<^verbatim>\<open>.oxd-table-filter-area-toggle\<close>
  \<^item> \<open>SearchResults\<close>: \<^verbatim>\<open>.oxd-table-body\<close> (\<^verbatim>\<open>searchResults\<close>, \<^verbatim>\<open>searchResultsTable\<close>)
  \<^item> \<open>ResultRows\<close>: \<^verbatim>\<open>.oxd-table-row\<close> inside \<open>SearchResults\<close>
  \<^item> \<open>NoRecordsFound\<close>: the "No Records Found" marker of the results area
    (\<^verbatim>\<open>noRecordsFound\<close>: a table cell with that text, a span in the earlier revision)
  \<^item> \<open>ToastMessage\<close>: \<^verbatim>\<open>.oxd-text--toast-message\<close>
  \<^item> \<open>ErrorToast\<close>: \<^verbatim>\<open>.oxd-toast-content--error\<close>
  \<^item> \<open>AnyToast\<close>: \<^verbatim>\<open>.oxd-toast-content--error, .oxd-text--toast-message\<close> (the
    \<^verbatim>\<open>toastMessage\<close> of the earlier revision of the base page)
  \<^item> \<open>FieldInput l\<close>, \<open>FieldError l\<close>, \<open>SelectInput l\<close>, \<open>SelectOption l v\<close>: the input, the
    error message span, the dropdown and a dropdown option of the field labelled \<open>l\<close>
  \<^item> \<open>AutocompleteOption\<close>: the first \<^verbatim>\<open>.oxd-autocomplete-option\<close>

  A \<open>dom\<close> is one snapshot of the page, given by what the engine's read operations
  return on it: \<open>matches\<close> is \<^verbatim>\<open>locator.count()\<close>, \<open>visible\<close> is \<^verbatim>\<open>locator.isVisible()\<close>,
  \<open>textContent\<close> is \<^verbatim>\<open>locator.textContent()\<close> (\<^verbatim>\<open>null\<close> is \<open>None\<close>), \<open>styleAttr\<close> is
  \<^verbatim>\<open>getAttribute('style')\<close> on the search panel, which may raise an engine error, and
  \<open>inputValues\<close> lists \<^verbatim>\<open>inputValue()\<close> of every \<^verbatim>\<open>input[type="text"]\<close> in document order.
\<close>

datatype locator =
    SearchButton | ResetButton | SearchPanel | FilterToggle
  | SearchResults | ResultRows | NoRecordsFound
  | ToastMessage | ErrorToast | AnyToast
  | FieldInput string | FieldError string | SelectInput string | SelectOption string string
  | AutocompleteOption

datatype error = TimeoutError | EngineError

record dom =
  matches :: "locator \<Rightarrow> nat"
  visible :: "locator \<Rightarrow> bool"
  textContent :: "locator \<Rightarrow> string option"
  styleAttr :: "error + string option"
  inputValues :: "string list"

text \<open>
  Locators are strict: a read through a locator that matches more than one element
  raises an engine error. \<open>isVisible\<close> is \<^verbatim>\<open>locator.isVisible()\<close> with that error. Where a
  method is modelled twice, the one whose name ends in \<open>_strict\<close> is the method with that
  error, raised to the caller or caught where the method has a \<^verbatim>\<open>try\<close> block; the other
  is the method on the pages on which the locators it reads match at most one element
  (lemmas \<open>strict_reads_agree\<close>, \<open>strict_toast_reads_agree\<close> and \<open>waitFor_strict_agrees\<close>).
\<close>

definition isVisible :: "dom \<Rightarrow> locator \<Rightarrow> error + bool" where
  "isVisible d l = (if 1 < matches d l then Inl EngineError else Inr (visible d l))"

section \<open>Panel visibility\<close>

text \<open>
  \<^verbatim>\<open>isSearchPanelVisible\<close> and \<^verbatim>\<open>isSearchPanelHidden\<close> of
  \<^verbatim>\<open>src/pages/base-search-page.ts\<close> (lines 65-123). \<open>hasDisplayNone\<close> is the local constant
  of that name. The \<open>_try\<close> functions are the bodies of the \<^verbatim>\<open>try\<close> blocks, with a raised
  error as \<open>Inl\<close>; the functions themselves add the \<^verbatim>\<open>catch\<close>.
\<close>

definition hasDisplayNone :: "string \<Rightarrow> bool" where
  "hasDisplayNone style =
     (str_includes (toLowerCase style) ''display:none'' \<or>
      str_includes (toLowerCase style) ''display: none'')"

definition isSearchPanelVisible_try :: "dom \<Rightarrow> error + bool" where
  "isSearchPanelVisible_try d =
     (let isPresent = (0 < matches d SearchPanel) in
      if \<not> isPresent then Inr False
      else case styleAttr d of
             Inl e \<Rightarrow> Inl e
           | Inr style \<Rightarrow>
               if \<not> truthy style then Inr True
               else Inr (\<not> hasDisplayNone (orEmpty style)))"

definition isSearchPanelVisible :: "dom \<Rightarrow> bool" where
  "isSearchPanelVisible d =
     (case isSearchPanelVisible_try d of Inl e \<Rightarrow> False | Inr b \<Rightarrow> b)"

definition isSearchPanelHidden_try :: "dom \<Rightarrow> error + bool" where
  "isSearchPanelHidden_try d =
     (if matches d SearchPanel = 0 then Inr True
      else case styleAttr d of
             Inl e \<Rightarrow> Inl e
           | Inr style \<Rightarrow>
               if \<not> truthy style then Inr False
               else Inr (hasDisplayNone (orEmpty style)))"

definition isSearchPanelHidden :: "dom \<Rightarrow> bool" where
  "isSearchPanelHidden d =
     (case isSearchPanelHidden_try d of Inl e \<Rightarrow> True | Inr b \<Rightarrow> b)"

text \<open>
  The earlier revision of the base page (\<^verbatim>\<open>src/unnamed/part_005\<close>, lines 37-50) tests the
  single literal \<^verbatim>\<open>display:none\<close>.
\<close>

definition isSearchPanelVisible_part005 :: "dom \<Rightarrow> bool" where
  "isSearchPanelVisible_part005 d =
     (if matches d SearchPanel = 0 then False
      else case styleAttr d of
             Inl e \<Rightarrow> False
           | Inr style \<Rightarrow>
               if \<not> truthy style then True
               else \<not> str_includes (toLowerCase (orEmpty style)) ''display:none'')"

text \<open>
  The rule of the specification (section 4.2), in its words: a null style is visible;
  otherwise lower-case the text, strip the white space around each colon, and the panel
  is hidden exactly when the result contains \<^verbatim>\<open>display:none\<close>. \<open>stripAfterColon\<close> drops
  the white space that follows a colon; the white space before a colon is dropped by
  running it over the reversed text.
\<close>

fun stripAfterColon :: "bool \<Rightarrow> string \<Rightarrow> string" where
  "stripAfterColon b [] = []"
| "stripAfterColon b (c # cs) =
     (if c = CHR '':'' then c # stripAfterColon True cs
      else if b \<and> isWhiteSpace c then stripAfterColon True cs
      else c # stripAfterColon False cs)"

definition spec_normalize :: "string \<Rightarrow> string" where
  "spec_normalize s =
     rev (stripAfterColon False (rev (stripAfterColon False (toLowerCase s))))"

definition spec_isVisible :: "string option \<Rightarrow> bool" where
  "spec_isVisible styleText =
     (case styleText of
        None \<Rightarrow> True
      | Some s \<Rightarrow> \<not> str_includes (spec_normalize s) ''display:none'')"

section \<open>Reading the outcome of a search\<close>

text \<open>
  The read-only methods of \<^verbatim>\<open>BaseSearchPage\<close> (\<^verbatim>\<open>src/pages/base-search-page.ts\<close>, lines
  207-251 and 329-344, with \<^verbatim>\<open>isElementVisible\<close> of the base page). On a snapshot
  \<^verbatim>\<open>isElementVisible\<close>, which waits for the element to be visible and answers false when
  the wait fails, is the locator's visibility. The suffix \<open>_base\<close> marks a method that
  \<^verbatim>\<open>AdminUserSearchPage\<close> overrides.
\<close>

definition isElementVisible :: "dom \<Rightarrow> locator \<Rightarrow> bool" where
  "isElementVisible d l = visible d l"

definition getToastMessage_base :: "dom \<Rightarrow> string" where
  "getToastMessage_base d =
     (if visible d ToastMessage then orEmpty (textContent d ToastMessage) else [])"

definition hasSearchResults_base :: "dom \<Rightarrow> bool" where
  "hasSearchResults_base d =
     (isElementVisible d SearchResults \<and> \<not> isElementVisible d NoRecordsFound)"

definition hasNoRecordsFound_base :: "dom \<Rightarrow> bool" where
  "hasNoRecordsFound_base d =
     (let hasNoRecordsInResults = visible d NoRecordsFound;
          toastMessage = getToastMessage_base d;
          hasNoRecordsInToast = str_includes (toLowerCase toastMessage) ''no records found''
      in hasNoRecordsInResults \<or> hasNoRecordsInToast)"


definition getFieldErrorMessage :: "dom \<Rightarrow> string \<Rightarrow> error + string" where
  "getFieldErrorMessage d fieldName =
     (case isVisible d (FieldError fieldName) of
        Inl e \<Rightarrow> Inl e
      | Inr shown \<Rightarrow>
          if shown then Inr (orEmpty (textContent d (FieldError fieldName))) else Inr [])"

definition hasFieldError :: "dom \<Rightarrow> string \<Rightarrow> bool" where
  "hasFieldError d fieldName = visible d (FieldError fieldName)"

text \<open>
  \<^verbatim>\<open>verifyDefaultSearchState\<close> (lines 381-394): the loop over the text inputs returns false
  at the first one whose trimmed value is not empty.
\<close>

fun allInputsBlank :: "string list \<Rightarrow> bool" where
  "allInputsBlank [] = True"
| "allInputsBlank (v # vs) = (if trim v \<noteq> [] then False else allInputsBlank vs)"

definition verifyDefaultSearchState :: "dom \<Rightarrow> bool" where
  "verifyDefaultSearchState d = allInputsBlank (inputValues d)"

text \<open>
  The read-only methods of \<^verbatim>\<open>AdminUserSearchPage\<close>, later revision
  (\<^verbatim>\<open>src/pages/admin-user-search-page.ts\<close>, lines 678-896 and 992-995). The toast readers
  catch what the engine raises and answer false, or the empty string;
  \<^verbatim>\<open>isNoRecordsFoundDisplayed\<close> and \<^verbatim>\<open>getNoRecordsFoundMessage\<close> read the marker outside any
  \<^verbatim>\<open>try\<close>.
\<close>

definition hasEmployeeNameError :: "dom \<Rightarrow> bool" where
  "hasEmployeeNameError d = hasFieldError d ''Employee Name''"

definition hasUsernameError :: "dom \<Rightarrow> bool" where
  "hasUsernameError d = hasFieldError d ''Username''"

definition isErrorToastVisible :: "dom \<Rightarrow> bool" where
  "isErrorToastVisible d = visible d ErrorToast"

definition isErrorToastVisible_strict :: "dom \<Rightarrow> bool" where
  "isErrorToastVisible_strict d =
     (case isVisible d ErrorToast of Inl e \<Rightarrow> False | Inr shown \<Rightarrow> shown)"

definition getErrorToastMessage :: "dom \<Rightarrow> string" where
  "getErrorToastMessage d =
     (if isErrorToastVisible_strict d then orEmpty (textContent d ErrorToast) else [])"

definition isToastMessageVisible :: "dom \<Rightarrow> bool" where
  "isToastMessageVisible d = visible d ToastMessage"

definition getToastMessage :: "dom \<Rightarrow> string" where
  "getToastMessage d =
     (if isToastMessageVisible d then orEmpty (textContent d ToastMessage) else [])"

definition isNoRecordsFoundDisplayed :: "dom \<Rightarrow> bool" where
  "isNoRecordsFoundDisplayed d =
     (let hasNoRecordsInResults = visible d NoRecordsFound;
          toastText = getToastMessage d;
          hasNoRecordsInToast = str_includes (toLowerCase toastText) ''no records found''
      in hasNoRecordsInResults \<or> hasNoRecordsInToast)"

definition isToastMessageVisible_strict :: "dom \<Rightarrow> bool" where
  "isToastMessageVisible_strict d =
     (case isVisible d ToastMessage of Inl e \<Rightarrow> False | Inr shown \<Rightarrow> shown)"

definition getToastMessage_strict :: "dom \<Rightarrow> string" where
  "getToastMessage_strict d =
     (if isToastMessageVisible_strict d then orEmpty (textContent d ToastMessage) else [])"

definition isNoRecordsFoundDisplayed_strict :: "dom \<Rightarrow> error + bool" where
  "isNoRecordsFoundDisplayed_strict d =
     (case isVisible d NoRecordsFound of
        Inl e \<Rightarrow> Inl e
      | Inr hasNoRecordsInResults \<Rightarrow>
          (let toastText = getToastMessage_strict d;
               hasNoRecordsInToast = str_includes (toLowerCase toastText) ''no records found''
           in Inr (hasNoRecordsInResults \<or> hasNoRecordsInToast)))"

definition getNoRecordsFoundMessage :: "dom \<Rightarrow> error + string" where
  "getNoRecordsFoundMessage d =
     (let message0 = [] in
      case isVisible d NoRecordsFound of
        Inl e \<Rightarrow> Inl e
      | Inr shown \<Rightarrow>
          (let message1 =
                 (if shown then
                    (let resultText = textContent d NoRecordsFound in
                     if truthy resultText \<and> str_includes (orEmpty resultText) ''No Records Found''
                     then trim (orEmpty resultText) else message0)
                  else message0)
           in if message1 = [] \<and> isToastMessageVisible_strict d then
                (let toastText = getToastMessage_strict d in
                 if toastText \<noteq> [] \<and> str_includes (toLowerCase toastText) ''no records found''
                 then Inr (trim toastText) else Inr message1)
              else Inr message1))"

definition hasAnyValidationError :: "dom \<Rightarrow> bool" where
  "hasAnyValidationError d =
     (let hasFieldError = (hasUsernameError d \<or> hasEmployeeNameError d);
          hasToastError = isErrorToastVisible d
      in hasFieldError \<or> hasToastError)"

text \<open>
  \<^verbatim>\<open>getAllValidationErrors\<close> (lines 842-871): \<open>push\<close> appends at the end of the array. The
  two field reads stand in one \<^verbatim>\<open>try\<close> block: when a read raises, the block is left, the
  array keeps what was pushed before, and the method goes on to the toast. The toast
  is read through \<^verbatim>\<open>isErrorToastVisible\<close> and \<^verbatim>\<open>getErrorToastMessage\<close>, which catch what they
  raise.
\<close>

definition push :: "string list \<Rightarrow> string \<Rightarrow> string list" where
  "push errors m = errors @ [m]"

definition getAllValidationErrors :: "dom \<Rightarrow> string list" where
  "getAllValidationErrors d =
     (let errors0 = [];
          errors2 =
            (case getFieldErrorMessage d ''Username'' of
               Inl e \<Rightarrow> errors0
             | Inr usernameError \<Rightarrow>
                 (let errors1 = (if usernameError \<noteq> [] \<and> 0 < length (trim usernameError)
                                 then push errors0 (trim usernameError) else errors0)
                  in case getFieldErrorMessage d ''Employee Name'' of
                       Inl e \<Rightarrow> errors1
                     | Inr employeeNameError \<Rightarrow>
                         if employeeNameError \<noteq> [] \<and> 0 < length (trim employeeNameError)
                         then push errors1 (trim employeeNameError) else errors1))
      in if isErrorToastVisible_strict d then
           (let toastMessage = getErrorToastMessage d in
            if toastMessage \<noteq> [] \<and> 0 < length (trim toastMessage)
            then push errors2 (trim toastMessage) else errors2)
         else errors2)"

definition hasNoRecordsFound :: "dom \<Rightarrow> bool" where
  "hasNoRecordsFound d = isNoRecordsFoundDisplayed d"

definition hasSearchResults :: "dom \<Rightarrow> bool" where
  "hasSearchResults d =
     (let noRecordsFound = isNoRecordsFoundDisplayed d;
          hasDataRows = (0 < matches d ResultRows)
      in \<not> noRecordsFound \<and> hasDataRows)"


text \<open>
  The earlier revision of \<^verbatim>\<open>getAllValidationErrors\<close> (same file, lines 252-281) reads the
  toast through \<^verbatim>\<open>isToastVisible\<close> and \<^verbatim>\<open>getToastMessage\<close> of the earlier base page
  (\<^verbatim>\<open>src/unnamed/part_005\<close>, lines 103-119).
\<close>

definition isToastVisible_part005 :: "dom \<Rightarrow> bool" where
  "isToastVisible_part005 d = visible d AnyToast"

definition getToastMessage_part005 :: "dom \<Rightarrow> string" where
  "getToastMessage_part005 d =
     (if isToastVisible_part005 d then orEmpty (textContent d AnyToast) else [])"

definition isToastVisible_part005_strict :: "dom \<Rightarrow> bool" where
  "isToastVisible_part005_strict d =
     (case isVisible d AnyToast of Inl e \<Rightarrow> False | Inr shown \<Rightarrow> shown)"

definition getToastMessage_part005_strict :: "dom \<Rightarrow> string" where
  "getToastMessage_part005_strict d =
     (if isToastVisible_part005_strict d then orEmpty (textContent d AnyToast) else [])"

definition getAllValidationErrors_earlier :: "dom \<Rightarrow> string list" where
  "getAllValidationErrors_earlier d =
     (let errors0 = [];
          errors2 =
            (case getFieldErrorMessage d ''Username'' of
               Inl e \<Rightarrow> errors0
             | Inr usernameError \<Rightarrow>
                 (let errors1 = (if usernameError \<noteq> [] \<and> 0 < length (trim usernameError)
                                 then push errors0 (trim usernameError) else errors0)
                  in case getFieldErrorMessage d ''Employee Name'' of
                       Inl e \<Rightarrow> errors1
                     | Inr employeeNameError \<Rightarrow>
                         if employeeNameError \<noteq> [] \<and> 0 < length (trim employeeNameError)
                         then push errors1 (trim employeeNameError) else errors1))
      in if isToastVisible_part005_strict d then
           (let toastMessage = getToastMessage_part005_strict d in
            if toastMessage \<noteq> [] \<and> 0 < length (trim toastMessage)
            then push errors2 (trim toastMessage) else errors2)
         else errors2)"

text \<open>
  The overriding \<^verbatim>\<open>hasNoRecordsFound\<close> and \<^verbatim>\<open>hasSearchResults\<close> with the error kept
  (\<^verbatim>\<open>src/pages/admin-user-search-page.ts\<close>, lines 876-896): \<^verbatim>\<open>isNoRecordsFoundDisplayed\<close>
  reads the marker outside any \<^verbatim>\<open>try\<close>, and neither method catches what it raises; the
  rows are counted, which never raises.
\<close>

definition hasNoRecordsFound_strict :: "dom \<Rightarrow> error + bool" where
  "hasNoRecordsFound_strict d = isNoRecordsFoundDisplayed_strict d"

definition hasSearchResults_strict :: "dom \<Rightarrow> error + bool" where
  "hasSearchResults_strict d =
     (case isNoRecordsFoundDisplayed_strict d of
        Inl e \<Rightarrow> Inl e
      | Inr noRecordsFound \<Rightarrow>
          (let hasDataRows = (0 < matches d ResultRows)
           in Inr (\<not> noRecordsFound \<and> hasDataRows)))"

section \<open>Acting on the page\<close>

text \<open>
  The application under test is not part of the repository. It is a parameter of the
  model: an \<open>app\<close> says how the page changes when the engine clicks, clears or fills an
  element, and how it changes when time passes with nothing done to it
  (\<open>app (Elapse t) d\<close> is the page \<open>t\<close> milliseconds after \<open>d\<close>). A \<open>world\<close> is the page
  together with the trace of what the engine has done so far.
\<close>

datatype event = Click locator | Clear locator | Fill locator string | Elapse nat

type_synonym app = "event \<Rightarrow> dom \<Rightarrow> dom"

record world =
  page :: dom
  trace :: "event list"

definition act :: "app \<Rightarrow> event \<Rightarrow> world \<Rightarrow> world" where
  "act app e w = \<lparr>page = app e (page w), trace = trace w @ [e]\<rparr>"

text \<open>The timeouts of \<^verbatim>\<open>src/utils/constants.ts\<close>, in milliseconds.\<close>

definition ELEMENT_WAIT :: nat where "ELEMENT_WAIT = 10000"
definition ELEMENT_QUICK_WAIT :: nat where "ELEMENT_QUICK_WAIT = 1000"
definition SEARCH_RESULTS :: nat where "SEARCH_RESULTS = 3000"

text \<open>
  Promises. \<open>waitFor app d l timeout\<close> is \<^verbatim>\<open>locator.waitFor({state: 'visible', timeout})\<close>
  started on page \<open>d\<close>: the time at which it settles and how, resolving at the first
  moment the element is visible and rejecting with a timeout error when the budget runs
  out first. \<open>promise_race\<close> is \<^verbatim>\<open>Promise.race\<close> on a non-empty array: the promise that
  settles first decides, resolved or rejected, the earlier array position winning a tie.
  \<open>settle\<close> is \<^verbatim>\<open>await\<close>: time passes until the promise settles; a rejection is raised as
  \<open>Inl\<close>, together with the world at that moment, which a \<^verbatim>\<open>catch\<close> goes on from.
\<close>

type_synonym settled = "nat \<times> (error + unit)"

definition waitFor :: "app \<Rightarrow> dom \<Rightarrow> locator \<Rightarrow> nat \<Rightarrow> settled" where
  "waitFor app d l timeout =
     (if visible d l then (0, Inr ())
      else case find (\<lambda>t. visible (app (Elapse t) d) l) [1..<Suc timeout] of
             Some t \<Rightarrow> (t, Inr ())
           | None \<Rightarrow> (timeout, Inl TimeoutError))"

text \<open>
  \<^verbatim>\<open>locator.waitFor\<close> is strict as well: \<open>waitFor_strict\<close> rejects with an engine error at
  the first moment the locator matches more than one element, if the element has not
  been visible before. \<open>pageAfter app t d\<close> is the page \<open>t\<close> milliseconds after \<open>d\<close>, which
  is \<open>d\<close> itself when no time has passed. \<open>waitFor\<close> is the wait through a locator that
  matches at most one element all along.
\<close>

definition pageAfter :: "app \<Rightarrow> nat \<Rightarrow> dom \<Rightarrow> dom" where
  "pageAfter app t d = (if t = 0 then d else app (Elapse t) d)"

definition waitFor_strict :: "app \<Rightarrow> dom \<Rightarrow> locator \<Rightarrow> nat \<Rightarrow> settled" where
  "waitFor_strict app d l timeout =
     (case find (\<lambda>t. 1 < matches (pageAfter app t d) l \<or> visible (pageAfter app t d) l)
             [0..<Suc timeout] of
        Some t \<Rightarrow> (t, if 1 < matches (pageAfter app t d) l then Inl EngineError else Inr ())
      | None \<Rightarrow> (timeout, Inl TimeoutError))"

fun promise_race :: "settled \<Rightarrow> settled list \<Rightarrow> settled" where
  "promise_race p [] = p"
| "promise_race p (q # qs) = promise_race (if fst q < fst p then q else p) qs"

definition settle :: "app \<Rightarrow> settled \<Rightarrow> world \<Rightarrow> (error \<times> world) + world" where
  "settle app s w =
     (let w' = (if fst s = 0 then w else act app (Elapse (fst s)) w) in
      case snd s of Inl e \<Rightarrow> Inl (e, w') | Inr u \<Rightarrow> Inr w')"

definition andThen ::
  "(error \<times> world) + world \<Rightarrow> (world \<Rightarrow> (error \<times> world) + world) \<Rightarrow> (error \<times> world) + world"
where
  "andThen r f = (case r of Inl x \<Rightarrow> Inl x | Inr w \<Rightarrow> f w)"

text \<open>
  The actions of \<^verbatim>\<open>BasePage\<close> (\<^verbatim>\<open>src/unnamed/part_004\<close>, lines 37-62) and
  \<^verbatim>\<open>page.waitForTimeout\<close>.
\<close>

definition waitForTimeout :: "app \<Rightarrow> nat \<Rightarrow> world \<Rightarrow> world" where
  "waitForTimeout app ms w = act app (Elapse ms) w"

definition waitForElement :: "app \<Rightarrow> locator \<Rightarrow> nat \<Rightarrow> world \<Rightarrow> (error \<times> world) + world" where
  "waitForElement app l timeout w = settle app (waitFor app (page w) l timeout) w"

definition clickElement :: "app \<Rightarrow> locator \<Rightarrow> nat \<Rightarrow> world \<Rightarrow> (error \<times> world) + world" where
  "clickElement app l timeout w =
     andThen (waitForElement app l timeout w) (\<lambda>w1. Inr (act app (Click l) w1))"

definition fillInput ::
  "app \<Rightarrow> locator \<Rightarrow> string \<Rightarrow> nat \<Rightarrow> world \<Rightarrow> (error \<times> world) + world" where
  "fillInput app l txt timeout w =
     andThen (waitForElement app l timeout w)
       (\<lambda>w1. Inr (act app (Fill l txt) (act app (Clear l) w1)))"

text \<open>
  The actions of \<^verbatim>\<open>BaseSearchPage\<close> (\<^verbatim>\<open>src/pages/base-search-page.ts\<close>, lines 34-39,
  156-165, 256-284 and 373-376).
\<close>

definition toggleSearchPanel :: "app \<Rightarrow> world \<Rightarrow> (error \<times> world) + world" where
  "toggleSearchPanel app w =
     (if visible (page w) FilterToggle then clickElement app FilterToggle ELEMENT_WAIT w
      else Inr w)"


definition clickResetButton :: "app \<Rightarrow> world \<Rightarrow> (error \<times> world) + world" where
  "clickResetButton app w = clickElement app ResetButton ELEMENT_WAIT w"

definition fillTextInput :: "app \<Rightarrow> string \<Rightarrow> string \<Rightarrow> world \<Rightarrow> (error \<times> world) + world" where
  "fillTextInput app fieldName v w = fillInput app (FieldInput fieldName) v ELEMENT_WAIT w"

definition fillSmartTextInput ::
  "app \<Rightarrow> string \<Rightarrow> string \<Rightarrow> world \<Rightarrow> (error \<times> world) + world" where
  "fillSmartTextInput app fieldName v w =
     andThen (fillInput app (FieldInput fieldName) v ELEMENT_WAIT w)
       (\<lambda>w1. if visible (page w1) AutocompleteOption
              then clickElement app AutocompleteOption ELEMENT_WAIT w1
              else Inr w1)"

definition selectDropdownOption ::
  "app \<Rightarrow> string \<Rightarrow> string \<Rightarrow> world \<Rightarrow> (error \<times> world) + world" where
  "selectDropdownOption app fieldName optionValue w =
     andThen (clickElement app (SelectInput fieldName) ELEMENT_WAIT w)
       (\<lambda>w1. clickElement app (SelectOption fieldName optionValue) ELEMENT_WAIT w1)"

definition resetSearchCriteria :: "app \<Rightarrow> world \<Rightarrow> (error \<times> world) + world" where
  "resetSearchCriteria app w =
     andThen (clickResetButton app w) (\<lambda>w1. Inr (waitForTimeout app ELEMENT_QUICK_WAIT w1))"

text \<open>
  \<^verbatim>\<open>AdminUserSearchPage\<close>, later revision (\<^verbatim>\<open>src/pages/admin-user-search-page.ts\<close>, lines
  405-548 and 884-896). A criterion is filled when it is truthy. \<open>hasSearchResults_await\<close>
  is the overriding \<^verbatim>\<open>hasSearchResults\<close> with the second it waits before it reads the page;
  the base page's \<^verbatim>\<open>waitForSearchComplete\<close> and \<^verbatim>\<open>waitForSearchResults\<close>
  (\<^verbatim>\<open>src/pages/base-search-page.ts\<close>, lines 170-202) call the overriding methods.
\<close>

record criteria =
  employeeName :: "string option"
  username :: "string option"
  userRole :: "string option"
  status :: "string option"

definition fillEmployeeName :: "app \<Rightarrow> string \<Rightarrow> world \<Rightarrow> (error \<times> world) + world" where
  "fillEmployeeName app v w = fillSmartTextInput app ''Employee Name'' v w"

definition fillUsername :: "app \<Rightarrow> string \<Rightarrow> world \<Rightarrow> (error \<times> world) + world" where
  "fillUsername app v w = fillTextInput app ''Username'' v w"

definition selectUserRole :: "app \<Rightarrow> string \<Rightarrow> world \<Rightarrow> (error \<times> world) + world" where
  "selectUserRole app v w = selectDropdownOption app ''User Role'' v w"

definition selectStatus :: "app \<Rightarrow> string \<Rightarrow> world \<Rightarrow> (error \<times> world) + world" where
  "selectStatus app v w = selectDropdownOption app ''Status'' v w"

definition fillSearchCriteria :: "app \<Rightarrow> criteria \<Rightarrow> world \<Rightarrow> (error \<times> world) + world" where
  "fillSearchCriteria app c w =
     andThen (if truthy (employeeName c) then fillEmployeeName app (orEmpty (employeeName c)) w
              else Inr w)
    (\<lambda>w1. andThen (if truthy (username c) then fillUsername app (orEmpty (username c)) w1
                    else Inr w1)
    (\<lambda>w2. andThen (if truthy (userRole c) then selectUserRole app (orEmpty (userRole c)) w2
                    else Inr w2)
    (\<lambda>w3. if truthy (status c) then selectStatus app (orEmpty (status c)) w3
           else Inr w3)))"




text \<open>
  \<^verbatim>\<open>waitForSearchResults\<close> (\<^verbatim>\<open>src/pages/base-search-page.ts\<close>, lines 170-189) and
  \<^verbatim>\<open>waitForAdminSearchResults\<close> (\<^verbatim>\<open>src/pages/admin-user-search-page.ts\<close>, lines 405-444).
  The quick check stands before the \<^verbatim>\<open>try\<close> block, so what it raises leaves the method;
  what the race raises is caught. The third promise of the admin race is
  \<^verbatim>\<open>waitForToastMessage()\<close>, which waits with the default timeout of \<^verbatim>\<open>waitForElement\<close>. In
  the \<^verbatim>\<open>catch\<close> block the table body is counted and then awaited through \<^verbatim>\<open>.first()\<close>, which
  is never ambiguous.
\<close>

definition hasSearchResults_await_strict ::
  "app \<Rightarrow> world \<Rightarrow> (error \<times> world) + (bool \<times> world)" where
  "hasSearchResults_await_strict app w =
     (let w1 = waitForTimeout app 1000 w in
      case hasSearchResults_strict (page w1) of
        Inl e \<Rightarrow> Inl (e, w1)
      | Inr hasResults \<Rightarrow> Inr (hasResults, w1))"

definition waitForSearchResults :: "app \<Rightarrow> world \<Rightarrow> (error \<times> world) + world" where
  "waitForSearchResults app w =
     (case hasSearchResults_await_strict app w of
        Inl x \<Rightarrow> Inl x
      | Inr (hasResults, w1) \<Rightarrow>
          (case hasNoRecordsFound_strict (page w1) of
             Inl e \<Rightarrow> Inl (e, w1)
           | Inr hasNoRecords \<Rightarrow>
               if hasResults \<or> hasNoRecords then Inr w1
               else case settle app
                           (promise_race
                              (waitFor_strict app (page w1) SearchResults SEARCH_RESULTS)
                              [waitFor_strict app (page w1) NoRecordsFound SEARCH_RESULTS]) w1 of
                      Inr w2 \<Rightarrow> Inr w2
                    | Inl (e, w2) \<Rightarrow> Inr w2))"

definition waitForAdminSearchResults :: "app \<Rightarrow> world \<Rightarrow> (error \<times> world) + world" where
  "waitForAdminSearchResults app w =
     (case hasSearchResults_await_strict app w of
        Inl x \<Rightarrow> Inl x
      | Inr (hasResults, w1) \<Rightarrow>
          (case hasNoRecordsFound_strict (page w1) of
             Inl e \<Rightarrow> Inl (e, w1)
           | Inr hasNoRecords \<Rightarrow>
               if hasResults \<or> hasNoRecords then Inr w1
               else case settle app
                           (promise_race
                              (waitFor_strict app (page w1) SearchResults SEARCH_RESULTS)
                              [waitFor_strict app (page w1) NoRecordsFound SEARCH_RESULTS,
                               waitFor_strict app (page w1) ToastMessage ELEMENT_WAIT]) w1 of
                      Inr w2 \<Rightarrow> Inr w2
                    | Inl (e, w2) \<Rightarrow>
                        (let w3 = waitForTimeout app ELEMENT_QUICK_WAIT w2 in
                         if 0 < matches (page w3) SearchResults
                         then waitForElement app SearchResults SEARCH_RESULTS w3
                         else Inr w3)))"



text \<open>
  \<^verbatim>\<open>testToggleSearchPanel\<close> (lines 939-948) reads the visibility, toggles, waits 500 ms and
  reads again; it answers whether the two readings differ.
\<close>

definition testToggleSearchPanel :: "app \<Rightarrow> world \<Rightarrow> (error \<times> world) + (bool \<times> world)" where
  "testToggleSearchPanel app w =
     (let initialVisibility = isSearchPanelVisible (page w) in
      case toggleSearchPanel app w of
        Inl x \<Rightarrow> Inl x
      | Inr w1 \<Rightarrow>
          (let w2 = waitForTimeout app 500 w1;
               finalVisibility = isSearchPanelVisible (page w2)
           in Inr (initialVisibility \<noteq> finalVisibility, w2)))"








section \<open>What the claims take from the application under test\<close>

text \<open>
  Modelled from the spec: the Reset button of the application under test, which is not
  code of the repository. The specification (section 8, property 5) has a reset leave
  all fields empty; as a property of the application: whatever the page shows, a click
  on Reset followed by the wait of \<^verbatim>\<open>resetSearchCriteria\<close> leaves every text input blank.
\<close>

definition resetEmptiesInputs :: "app \<Rightarrow> bool" where
  "resetEmptiesInputs app =
     (\<forall>d. allInputsBlank
            (inputValues (app (Elapse ELEMENT_QUICK_WAIT) (app (Click ResetButton) d))))"

text \<open>
  Modelled from the spec: the panel toggle of the application under test, which is not
  code of the repository. The specification (section 4.2) has the application toggle
  the panel purely through an inline \<^verbatim>\<open>display:none\<close>: a click on the toggle writes the
  style \<^verbatim>\<open>display: none;\<close> (as a browser serialises it) on a panel that reads as visible
  and removes the style from one that does not, and changes neither the panel element
  nor the toggle button.
\<close>

definition togglesInlineDisplay :: "app \<Rightarrow> bool" where
  "togglesInlineDisplay app =
     (\<forall>d. matches (app (Click FilterToggle) d) SearchPanel = matches d SearchPanel \<and>
          visible (app (Click FilterToggle) d) FilterToggle = visible d FilterToggle \<and>
          styleAttr (app (Click FilterToggle) d) =
            Inr (if isSearchPanelVisible d then Some ''display: none;'' else None))"

section \<open>Facts about strings\<close>

lemma startsWith_iff: "startsWith s p \<longleftrightarrow> (\<exists>q. s = p @ q)"
  by (induction s p rule: startsWith.induct) auto

lemma str_includes_iff: "str_includes s p \<longleftrightarrow> (\<exists>a b. s = a @ p @ b)"
proof (induction s)
  case Nil
  then show ?case by auto
next
  case (Cons c cs)
  show ?case
  proof
    assume "str_includes (c # cs) p"
    then consider "startsWith (c # cs) p" | "str_includes cs p" by auto
    then show "\<exists>a b. c # cs = a @ p @ b"
    proof cases
      case 1
      then obtain q where "c # cs = p @ q" by (auto simp: startsWith_iff)
      then have "c # cs = [] @ p @ q" by simp
      then show ?thesis by blast
    next
      case 2
      then obtain a b where "cs = a @ p @ b" using Cons.IH by blast
      then have "c # cs = (c # a) @ p @ b" by simp
      then show ?thesis by blast
    qed
  next
    assume "\<exists>a b. c # cs = a @ p @ b"
    then obtain a b where ab: "c # cs = a @ p @ b" by blast
    show "str_includes (c # cs) p"
    proof (cases a)
      case Nil
      then have "startsWith (c # cs) p" using ab by (auto simp: startsWith_iff)
      then show ?thesis by simp
    next
      case (Cons x xs)
      then have "cs = xs @ p @ b" using ab by simp
      then have "str_includes cs p" using Cons.IH by blast
      then show ?thesis by simp
    qed
  qed
qed

lemma str_includes_toLowerCase_iff:
  "str_includes (toLowerCase s) pat \<longleftrightarrow> (\<exists>p x q. s = p @ x @ q \<and> toLowerCase x = pat)"
proof
  assume "str_includes (toLowerCase s) pat"
  then obtain a b where "map toLowerChar s = a @ pat @ b"
    by (auto simp: str_includes_iff toLowerCase_def)
  then obtain p r where s: "s = p @ r" and "pat @ b = map toLowerChar r"
    by (auto simp: map_eq_append_conv)
  then obtain x q where "r = x @ q" and "map toLowerChar x = pat"
    by (auto simp: append_eq_map_conv)
  with s show "\<exists>p x q. s = p @ x @ q \<and> toLowerCase x = pat"
    by (auto simp: toLowerCase_def)
next
  assume "\<exists>p x q. s = p @ x @ q \<and> toLowerCase x = pat"
  then obtain p x q where "s = p @ x @ q" and "toLowerCase x = pat" by blast
  then have "toLowerCase s = toLowerCase p @ pat @ toLowerCase q"
    by (simp add: toLowerCase_def)
  then show "str_includes (toLowerCase s) pat"
    by (auto simp: str_includes_iff)
qed

lemma hasDisplayNone_iff:
  "hasDisplayNone s \<longleftrightarrow>
     (\<exists>p x q. s = p @ x @ q \<and>
        (toLowerCase x = ''display:none'' \<or> toLowerCase x = ''display: none''))"
  unfolding hasDisplayNone_def str_includes_toLowerCase_iff by blast

section \<open>Panel visibility: the claims\<close>

text \<open>
  Claim C2, as amended. With the panel present and its style read without error, the
  visibility predicate answers false exactly when the style text has a part that
  lower-cases to \<^verbatim>\<open>display:none\<close> or to \<^verbatim>\<open>display: none\<close> (no space or one space after the
  colon, none before it), and true for every other style, the absent style included.
  The earlier revision answers false exactly for \<^verbatim>\<open>display:none\<close>.
\<close>

theorem isSearchPanelVisible_false_iff:
  assumes "0 < matches d SearchPanel" and "styleAttr d = Inr st"
  shows "(isSearchPanelVisible d = False \<longleftrightarrow>
            (\<exists>s p x q. st = Some s \<and> s = p @ x @ q \<and>
               (toLowerCase x = ''display:none'' \<or> toLowerCase x = ''display: none'')))
         \<and> (isSearchPanelVisible_part005 d = False \<longleftrightarrow>
            (\<exists>s p x q. st = Some s \<and> s = p @ x @ q \<and> toLowerCase x = ''display:none''))"
proof (cases st)
  case None
  with assms show ?thesis
    by (simp add: isSearchPanelVisible_def isSearchPanelVisible_try_def
        isSearchPanelVisible_part005_def truthy_def)
next
  case (Some s)
  show ?thesis
  proof (cases "s = []")
    case True
    with Some assms show ?thesis
      by (simp add: isSearchPanelVisible_def isSearchPanelVisible_try_def
          isSearchPanelVisible_part005_def truthy_def toLowerCase_def)
  next
    case False
    with Some assms have "isSearchPanelVisible d = (\<not> hasDisplayNone s)"
      and "isSearchPanelVisible_part005 d = (\<not> str_includes (toLowerCase s) ''display:none'')"
      by (simp_all add: isSearchPanelVisible_def isSearchPanelVisible_try_def
          isSearchPanelVisible_part005_def truthy_def orEmpty_def)
    with Some show ?thesis
      by (simp add: hasDisplayNone_iff str_includes_toLowerCase_iff)
  qed
qed

theorem isSearchPanelVisible_false_iff_witness:
  "\<exists>s p x q. Some ''margin:0; DISPLAY: None;'' = Some s \<and> s = p @ x @ q \<and>
     (toLowerCase x = ''display:none'' \<or> toLowerCase x = ''display: none'')"
proof -
  let ?d = "\<lparr>matches = (\<lambda>l. 1), visible = (\<lambda>l. True), textContent = (\<lambda>l. None),
             styleAttr = Inr (Some ''margin:0; DISPLAY: None;''), inputValues = []\<rparr>"
  have hidden: "isSearchPanelVisible ?d = False"
    by (simp add: isSearchPanelVisible_def isSearchPanelVisible_try_def truthy_def orEmpty_def
        hasDisplayNone_def toLowerCase_def toLowerChar_def)
  have "0 < matches ?d SearchPanel" and "styleAttr ?d = Inr (Some ''margin:0; DISPLAY: None;'')"
    by simp_all
  from isSearchPanelVisible_false_iff [OF this] hidden show ?thesis
    by blast
qed

theorem isSearchPanelVisible_spacing_counterexample:
  "spec_isVisible (Some ''display : none'') = False \<and>
   isSearchPanelVisible
     \<lparr>matches = (\<lambda>l. 1), visible = (\<lambda>l. True), textContent = (\<lambda>l. None),
      styleAttr = Inr (Some ''display : none''), inputValues = []\<rparr> = True"
  by (simp add: spec_isVisible_def spec_normalize_def isWhiteSpace_def
      isSearchPanelVisible_def isSearchPanelVisible_try_def truthy_def orEmpty_def
      hasDisplayNone_def toLowerCase_def toLowerChar_def)

text \<open>
  Claim C10. On every page state the two predicates are complements. With no panel
  element the panel is reported not visible and hidden; with the element present and no
  style attribute it is reported visible and not hidden; and when reading the style
  raises an error, the error is caught: the panel is reported not visible and hidden.
\<close>

theorem isSearchPanelHidden_complement:
  "isSearchPanelHidden d = (\<not> isSearchPanelVisible d)
   \<and> (matches d SearchPanel = 0 \<longrightarrow> isSearchPanelVisible d = False \<and> isSearchPanelHidden d = True)
   \<and> (0 < matches d SearchPanel \<and> styleAttr d = Inr None \<longrightarrow>
        isSearchPanelVisible d = True \<and> isSearchPanelHidden d = False)
   \<and> (0 < matches d SearchPanel \<and> styleAttr d = Inl e \<longrightarrow>
        isSearchPanelVisible_try d = Inl e \<and> isSearchPanelHidden_try d = Inl e \<and>
        isSearchPanelVisible d = False \<and> isSearchPanelHidden d = True)"
  by (auto simp: isSearchPanelHidden_def isSearchPanelVisible_def isSearchPanelHidden_try_def
      isSearchPanelVisible_try_def truthy_def Let_def split: sum.splits)

theorem isSearchPanelHidden_complement_witness:
  "isSearchPanelVisible_try
     \<lparr>matches = (\<lambda>l. 1), visible = (\<lambda>l. True), textContent = (\<lambda>l. None),
      styleAttr = Inl EngineError, inputValues = []\<rparr> = Inl EngineError
   \<and> isSearchPanelHidden
     \<lparr>matches = (\<lambda>l. 1), visible = (\<lambda>l. True), textContent = (\<lambda>l. None),
      styleAttr = Inl EngineError, inputValues = []\<rparr> = True
   \<and> isSearchPanelHidden
     \<lparr>matches = (\<lambda>l. 0), visible = (\<lambda>l. False), textContent = (\<lambda>l. None),
      styleAttr = Inr None, inputValues = []\<rparr> = True
   \<and> isSearchPanelVisible
     \<lparr>matches = (\<lambda>l. 1), visible = (\<lambda>l. True), textContent = (\<lambda>l. None),
      styleAttr = Inr None, inputValues = []\<rparr> = True"
  using isSearchPanelHidden_complement
    [of "\<lparr>matches = (\<lambda>l. 1), visible = (\<lambda>l. True), textContent = (\<lambda>l. None),
         styleAttr = Inl EngineError, inputValues = []\<rparr>" EngineError]
    isSearchPanelHidden_complement
    [of "\<lparr>matches = (\<lambda>l. 0), visible = (\<lambda>l. False), textContent = (\<lambda>l. None),
         styleAttr = Inr None, inputValues = []\<rparr>" EngineError]
    isSearchPanelHidden_complement
    [of "\<lparr>matches = (\<lambda>l. 1), visible = (\<lambda>l. True), textContent = (\<lambda>l. None),
         styleAttr = Inr None, inputValues = []\<rparr>" EngineError]
  by simp

section \<open>Facts about trimming\<close>

lemma trim_eq_Nil_iff: "trim s = [] \<longleftrightarrow> (\<forall>c\<in>set s. isWhiteSpace c)"
proof
  assume "trim s = []"
  then have all: "\<forall>c\<in>set (dropWhile isWhiteSpace s). isWhiteSpace c"
    by (simp add: trim_def dropWhile_eq_Nil_conv)
  have "dropWhile isWhiteSpace s = []"
  proof (rule ccontr)
    assume ne: "dropWhile isWhiteSpace s \<noteq> []"
    then have "\<not> isWhiteSpace (hd (dropWhile isWhiteSpace s))" by (rule hd_dropWhile)
    moreover from ne have "hd (dropWhile isWhiteSpace s) \<in> set (dropWhile isWhiteSpace s)"
      by simp
    ultimately show False using all by blast
  qed
  then show "\<forall>c\<in>set s. isWhiteSpace c" by (simp add: dropWhile_eq_Nil_conv)
next
  assume "\<forall>c\<in>set s. isWhiteSpace c"
  then have dw: "dropWhile isWhiteSpace s = []" by (simp add: dropWhile_eq_Nil_conv)
  show "trim s = []" unfolding trim_def dw by simp
qed

lemma trim_not_blank: "trim s \<noteq> [] \<Longrightarrow> \<exists>c\<in>set (trim s). \<not> isWhiteSpace c"
proof -
  assume ne: "trim s \<noteq> []"
  let ?u = "dropWhile isWhiteSpace (rev (dropWhile isWhiteSpace s))"
  from ne have "?u \<noteq> []" by (simp add: trim_def)
  then have "\<not> isWhiteSpace (hd ?u)" by (rule hd_dropWhile)
  moreover from \<open>?u \<noteq> []\<close> have "hd ?u \<in> set (trim s)" by (simp add: trim_def)
  ultimately show ?thesis by blast
qed

lemma isWhiteSpace_toLowerChar: "isWhiteSpace c \<Longrightarrow> toLowerChar c = c"
  unfolding isWhiteSpace_def by (elim disjE | simp add: toLowerChar_def)+

lemma str_includes_trim:
  assumes "str_includes s pat" and "c \<in> set pat" and "\<not> isWhiteSpace c"
  shows "trim s \<noteq> []"
proof -
  from assms(1) obtain a b where "s = a @ pat @ b" by (auto simp: str_includes_iff)
  with assms(2) have "c \<in> set s" by simp
  with assms(3) show ?thesis by (auto simp: trim_eq_Nil_iff)
qed

lemma str_includes_toLowerCase_trim:
  assumes "str_includes (toLowerCase s) pat" and "c \<in> set pat" and "\<not> isWhiteSpace c"
  shows "trim s \<noteq> []"
proof -
  from assms(1) obtain a b where "toLowerCase s = a @ pat @ b" by (auto simp: str_includes_iff)
  with assms(2) have "c \<in> set (toLowerCase s)" by simp
  then obtain c' where c': "c' \<in> set s" and "c = toLowerChar c'"
    by (auto simp: toLowerCase_def)
  with assms(3) have "\<not> isWhiteSpace c'" using isWhiteSpace_toLowerChar [of c'] by auto
  with c' show ?thesis by (auto simp: trim_eq_Nil_iff)
qed

lemma no_records_lower_trim:
  assumes "str_includes (toLowerCase s) ''no records found''"
  shows "trim s \<noteq> []"
  using str_includes_toLowerCase_trim [OF assms, of "CHR ''n''"]
  by (simp add: isWhiteSpace_def)

lemma no_records_trim:
  assumes "str_includes s ''No Records Found''"
  shows "trim s \<noteq> []"
  using str_includes_trim [OF assms, of "CHR ''N''"]
  by (simp add: isWhiteSpace_def)

lemma trim_Nil: "trim [] = []"
  by (simp add: trim_def)

lemma nonblank_conv: "(m \<noteq> [] \<and> 0 < length (trim m)) = (trim m \<noteq> [])"
  by (cases m) (simp_all add: trim_Nil)

lemma isErrorToastVisible_strict_iff:
  "isErrorToastVisible_strict d \<longleftrightarrow> \<not> 1 < matches d ErrorToast \<and> visible d ErrorToast"
  by (simp add: isErrorToastVisible_strict_def isVisible_def)

lemma isToastVisible_part005_strict_iff:
  "isToastVisible_part005_strict d \<longleftrightarrow> \<not> 1 < matches d AnyToast \<and> visible d AnyToast"
  by (simp add: isToastVisible_part005_strict_def isVisible_def)

lemma isToastMessageVisible_strict_iff:
  "isToastMessageVisible_strict d \<longleftrightarrow> \<not> 1 < matches d ToastMessage \<and> visible d ToastMessage"
  by (simp add: isToastMessageVisible_strict_def isVisible_def)

lemma getFieldErrorMessage_eq:
  "getFieldErrorMessage d f =
     (if 1 < matches d (FieldError f) then Inl EngineError
      else Inr (if visible d (FieldError f) then orEmpty (textContent d (FieldError f)) else []))"
  by (simp add: getFieldErrorMessage_def isVisible_def)

lemma not_includes_empty: "\<not> str_includes (toLowerCase []) ''no records found''"
  by (simp add: toLowerCase_def)

lemma isNoRecordsFoundDisplayed_strict_eq:
  "isNoRecordsFoundDisplayed_strict d =
     (if 1 < matches d NoRecordsFound then Inl EngineError
      else Inr (visible d NoRecordsFound \<or>
                (\<not> 1 < matches d ToastMessage \<and> visible d ToastMessage \<and>
                 str_includes (toLowerCase (orEmpty (textContent d ToastMessage)))
                   ''no records found'')))"
  using not_includes_empty
  by (simp add: isNoRecordsFoundDisplayed_strict_def isVisible_def getToastMessage_strict_def
      isToastMessageVisible_strict_def Let_def)

lemma strict_reads_agree:
  assumes "\<not> 1 < matches d NoRecordsFound" and "\<not> 1 < matches d ToastMessage"
  shows "hasNoRecordsFound_strict d = Inr (hasNoRecordsFound d)"
    and "hasSearchResults_strict d = Inr (hasSearchResults d)"
  using assms
  by (simp_all add: hasNoRecordsFound_strict_def hasSearchResults_strict_def
      isNoRecordsFoundDisplayed_strict_def isVisible_def getToastMessage_strict_def
      isToastMessageVisible_strict_def hasNoRecordsFound_def hasSearchResults_def
      isNoRecordsFoundDisplayed_def getToastMessage_def isToastMessageVisible_def Let_def)

lemma strict_toast_reads_agree:
  "\<not> 1 < matches d ErrorToast \<Longrightarrow> isErrorToastVisible_strict d = isErrorToastVisible d"
  "\<not> 1 < matches d AnyToast \<Longrightarrow> getToastMessage_part005_strict d = getToastMessage_part005 d"
  by (simp_all add: isErrorToastVisible_strict_def isErrorToastVisible_def isVisible_def
      getToastMessage_part005_strict_def getToastMessage_part005_def
      isToastVisible_part005_strict_def isToastVisible_part005_def)

lemma trimmed_not_blank:
  assumes "m \<in> set (map trim (filter (\<lambda>m. trim m \<noteq> []) xs))"
  shows "m \<noteq> [] \<and> (\<exists>c\<in>set m. \<not> isWhiteSpace c)"
proof -
  from assms obtain x where "m = trim x" and "trim x \<noteq> []" by auto
  then show ?thesis using trim_not_blank [of x] by simp
qed

section \<open>Reading the outcome of a search: the claims\<close>

text \<open>
  Claim C6, as amended. The list \<^verbatim>\<open>getAllValidationErrors\<close> returns holds, in this order,
  the Username field error, the Employee Name field error and the toast error. That is
  the order in which the method reads them: Username before Employee Name, whereas
  \<^verbatim>\<open>fillSearchCriteria\<close> fills Employee Name before Username. Each message is read when
  its element is visible, trimmed, and left out when it is empty or only white space, so
  no entry is empty and every entry has a character that is not white space. A field
  error whose locator matches more than one element makes the read raise: the method
  then leaves out that error and the field error after it, and goes on to the toast. A
  toast whose locator matches more than one element is left out. The earlier revision
  does the same with its own toast locator.
\<close>

theorem getAllValidationErrors_reading_order:
  "getAllValidationErrors d =
     map trim (filter (\<lambda>m. trim m \<noteq> [])
       ((if 1 < matches d (FieldError ''Username'') then []
         else (if visible d (FieldError ''Username'')
               then orEmpty (textContent d (FieldError ''Username'')) else [])
              # (if 1 < matches d (FieldError ''Employee Name'') then []
                 else [if visible d (FieldError ''Employee Name'')
                       then orEmpty (textContent d (FieldError ''Employee Name'')) else []]))
        @ (if \<not> 1 < matches d ErrorToast \<and> visible d ErrorToast
           then [orEmpty (textContent d ErrorToast)] else [])))
   \<and> getAllValidationErrors_earlier d =
     map trim (filter (\<lambda>m. trim m \<noteq> [])
       ((if 1 < matches d (FieldError ''Username'') then []
         else (if visible d (FieldError ''Username'')
               then orEmpty (textContent d (FieldError ''Username'')) else [])
              # (if 1 < matches d (FieldError ''Employee Name'') then []
                 else [if visible d (FieldError ''Employee Name'')
                       then orEmpty (textContent d (FieldError ''Employee Name'')) else []]))
        @ (if \<not> 1 < matches d AnyToast \<and> visible d AnyToast
           then [orEmpty (textContent d AnyToast)] else [])))
   \<and> (\<forall>m\<in>set (getAllValidationErrors d) \<union> set (getAllValidationErrors_earlier d).
         m \<noteq> [] \<and> (\<exists>c\<in>set m. \<not> isWhiteSpace c))"
proof -
  let ?keep = "\<lambda>xs. map trim (filter (\<lambda>m. trim m \<noteq> []) xs)"
  let ?fields = "(if 1 < matches d (FieldError ''Username'') then []
         else (if visible d (FieldError ''Username'')
               then orEmpty (textContent d (FieldError ''Username'')) else [])
              # (if 1 < matches d (FieldError ''Employee Name'') then []
                 else [if visible d (FieldError ''Employee Name'')
                       then orEmpty (textContent d (FieldError ''Employee Name'')) else []]))"
  let ?toast = "\<lambda>l. (if \<not> 1 < matches d l \<and> visible d l then [orEmpty (textContent d l)] else [])"
  have new: "getAllValidationErrors d = ?keep (?fields @ ?toast ErrorToast)"
    by (simp add: getAllValidationErrors_def Let_def push_def nonblank_conv trim_Nil
        getFieldErrorMessage_eq getErrorToastMessage_def isErrorToastVisible_strict_iff)
  have old: "getAllValidationErrors_earlier d = ?keep (?fields @ ?toast AnyToast)"
    by (simp add: getAllValidationErrors_earlier_def Let_def push_def nonblank_conv trim_Nil
        getFieldErrorMessage_eq getToastMessage_part005_strict_def
        isToastVisible_part005_strict_iff)
  have "m \<noteq> [] \<and> (\<exists>c\<in>set m. \<not> isWhiteSpace c)"
    if "m \<in> set (getAllValidationErrors d) \<union> set (getAllValidationErrors_earlier d)" for m
  proof -
    from that have "m \<in> set (?keep (?fields @ ?toast ErrorToast)) \<or>
        m \<in> set (?keep (?fields @ ?toast AnyToast))"
      unfolding new old by (simp only: Un_iff)
    then show ?thesis
    proof
      assume "m \<in> set (?keep (?fields @ ?toast ErrorToast))"
      then show ?thesis by (rule trimmed_not_blank)
    next
      assume "m \<in> set (?keep (?fields @ ?toast AnyToast))"
      then show ?thesis by (rule trimmed_not_blank)
    qed
  qed
  with new old show ?thesis by blast
qed

theorem getAllValidationErrors_reading_order_witness:
  "getAllValidationErrors
     \<lparr>matches = (\<lambda>l. 1),
      visible = (\<lambda>l. True),
      textContent = (\<lambda>l. if l = FieldError ''Username'' then Some '' Required ''
                          else if l = FieldError ''Employee Name'' then Some ''Invalid''
                          else if l = ErrorToast then Some ''Error '' else None),
      styleAttr = Inr None, inputValues = []\<rparr> = [''Required'', ''Invalid'', ''Error'']"
proof -
  let ?d = "\<lparr>matches = (\<lambda>l. 1),
      visible = (\<lambda>l. True),
      textContent = (\<lambda>l. if l = FieldError ''Username'' then Some '' Required ''
                          else if l = FieldError ''Employee Name'' then Some ''Invalid''
                          else if l = ErrorToast then Some ''Error '' else None),
      styleAttr = Inr None, inputValues = []\<rparr>"
  have tu: "trim '' Required '' = ''Required''"
    by (simp add: trim_def isWhiteSpace_def)
  have te: "trim ''Invalid'' = ''Invalid''"
    by (simp add: trim_def isWhiteSpace_def)
  have tt: "trim ''Error '' = ''Error''"
    by (simp add: trim_def isWhiteSpace_def)
  have u: "orEmpty (textContent ?d (FieldError ''Username'')) = '' Required ''"
    by (simp add: orEmpty_def)
  have e: "orEmpty (textContent ?d (FieldError ''Employee Name'')) = ''Invalid''"
    by (simp add: orEmpty_def)
  have t: "orEmpty (textContent ?d ErrorToast) = ''Error ''"
    by (simp add: orEmpty_def)
  have m: "\<not> 1 < matches ?d l" "visible ?d l" for l
    by simp_all
  from getAllValidationErrors_reading_order [of ?d, THEN conjunct1] show ?thesis
    unfolding u e t by (simp only: m if_True if_False not_False_eq_True simp_thms
        append.simps list.map filter.simps tu te tt list.distinct)
qed

theorem getAllValidationErrors_username_first_counterexample:
  "fillSearchCriteria (\<lambda>e d. d)
     \<lparr>employeeName = Some ''Nobody'', username = Some ''ab'', userRole = None, status = None\<rparr>
     \<lparr>page = \<lparr>matches = (\<lambda>l. 1),
              visible = (\<lambda>l. l \<noteq> AutocompleteOption \<and> l \<noteq> ErrorToast),
              textContent = (\<lambda>l. if l = FieldError ''Username''
                                  then Some ''Should be at least 5 characters''
                                  else if l = FieldError ''Employee Name'' then Some ''Invalid''
                                  else None),
              styleAttr = Inr None, inputValues = []\<rparr>,
      trace = []\<rparr>
   = Inr \<lparr>page = \<lparr>matches = (\<lambda>l. 1),
              visible = (\<lambda>l. l \<noteq> AutocompleteOption \<and> l \<noteq> ErrorToast),
              textContent = (\<lambda>l. if l = FieldError ''Username''
                                  then Some ''Should be at least 5 characters''
                                  else if l = FieldError ''Employee Name'' then Some ''Invalid''
                                  else None),
              styleAttr = Inr None, inputValues = []\<rparr>,
          trace = [Clear (FieldInput ''Employee Name''),
                   Fill (FieldInput ''Employee Name'') ''Nobody'',
                   Clear (FieldInput ''Username''), Fill (FieldInput ''Username'') ''ab'']\<rparr>
   \<and> getAllValidationErrors
     \<lparr>matches = (\<lambda>l. 1),
      visible = (\<lambda>l. l \<noteq> AutocompleteOption \<and> l \<noteq> ErrorToast),
      textContent = (\<lambda>l. if l = FieldError ''Username''
                          then Some ''Should be at least 5 characters''
                          else if l = FieldError ''Employee Name'' then Some ''Invalid''
                          else None),
      styleAttr = Inr None, inputValues = []\<rparr>
     = [''Should be at least 5 characters'', ''Invalid'']
   \<and> hasEmployeeNameError
     \<lparr>matches = (\<lambda>l. if l = FieldError ''Username'' then 2 else 1),
      visible = (\<lambda>l. l \<noteq> AutocompleteOption \<and> l \<noteq> ErrorToast),
      textContent = (\<lambda>l. if l = FieldError ''Username''
                          then Some ''Should be at least 5 characters''
                          else if l = FieldError ''Employee Name'' then Some ''Invalid''
                          else None),
      styleAttr = Inr None, inputValues = []\<rparr>
   \<and> getAllValidationErrors
     \<lparr>matches = (\<lambda>l. if l = FieldError ''Username'' then 2 else 1),
      visible = (\<lambda>l. l \<noteq> AutocompleteOption \<and> l \<noteq> ErrorToast),
      textContent = (\<lambda>l. if l = FieldError ''Username''
                          then Some ''Should be at least 5 characters''
                          else if l = FieldError ''Employee Name'' then Some ''Invalid''
                          else None),
      styleAttr = Inr None, inputValues = []\<rparr>
     = []"
proof -
  let ?app = "(\<lambda>e d. d) :: app"
  let ?c = "\<lparr>employeeName = Some ''Nobody'', username = Some ''ab'', userRole = None,
             status = None\<rparr>"
  let ?d = "\<lparr>matches = (\<lambda>l. 1),
      visible = (\<lambda>l. l \<noteq> AutocompleteOption \<and> l \<noteq> ErrorToast),
      textContent = (\<lambda>l. if l = FieldError ''Username''
                          then Some ''Should be at least 5 characters''
                          else if l = FieldError ''Employee Name'' then Some ''Invalid''
                          else None),
      styleAttr = Inr None, inputValues = []\<rparr>"
  let ?d2 = "\<lparr>matches = (\<lambda>l. if l = FieldError ''Username'' then 2 else 1),
      visible = (\<lambda>l. l \<noteq> AutocompleteOption \<and> l \<noteq> ErrorToast),
      textContent = (\<lambda>l. if l = FieldError ''Username''
                          then Some ''Should be at least 5 characters''
                          else if l = FieldError ''Employee Name'' then Some ''Invalid''
                          else None),
      styleAttr = Inr None, inputValues = []\<rparr>"
  have fill: "fillSearchCriteria ?app ?c \<lparr>page = ?d, trace = []\<rparr>
      = Inr \<lparr>page = ?d,
             trace = [Clear (FieldInput ''Employee Name''),
                      Fill (FieldInput ''Employee Name'') ''Nobody'',
                      Clear (FieldInput ''Username''), Fill (FieldInput ''Username'') ''ab'']\<rparr>"
    by (simp add: fillSearchCriteria_def andThen_def truthy_def orEmpty_def fillUsername_def
        fillEmployeeName_def fillSmartTextInput_def fillTextInput_def fillInput_def
        waitForElement_def waitFor_def settle_def act_def)
  have u: "getFieldErrorMessage ?d ''Username'' = Inr ''Should be at least 5 characters''"
    by (simp add: getFieldErrorMessage_def isVisible_def orEmpty_def)
  have e: "getFieldErrorMessage ?d ''Employee Name'' = Inr ''Invalid''"
    by (simp add: getFieldErrorMessage_def isVisible_def orEmpty_def)
  have tu: "trim ''Should be at least 5 characters'' = ''Should be at least 5 characters''"
    by (simp add: trim_def isWhiteSpace_def)
  have te: "trim ''Invalid'' = ''Invalid''"
    by (simp add: trim_def isWhiteSpace_def)
  have toast: "\<not> isErrorToastVisible_strict ?d" "\<not> isErrorToastVisible_strict ?d2"
    by (simp_all add: isErrorToastVisible_strict_def isVisible_def)
  have order: "getAllValidationErrors ?d = [''Should be at least 5 characters'', ''Invalid'']"
    unfolding getAllValidationErrors_def u e Let_def push_def
    using toast by (simp add: tu te)
  have u2: "getFieldErrorMessage ?d2 ''Username'' = Inl EngineError"
    by (simp add: getFieldErrorMessage_def isVisible_def)
  have lost: "getAllValidationErrors ?d2 = []"
    unfolding getAllValidationErrors_def u2 Let_def
    using toast by simp
  have shown: "hasEmployeeNameError ?d2"
    by (simp add: hasEmployeeNameError_def hasFieldError_def)
  from fill order shown lost show ?thesis by simp
qed

text \<open>
  Claim C1, as amended. On every snapshot \<^verbatim>\<open>hasSearchResults\<close> and
  \<^verbatim>\<open>hasNoRecordsFound\<close>, as \<^verbatim>\<open>AdminUserSearchPage\<close> overrides them, are never both true,
  the no-records verdict taking precedence over results. Neither reads the field errors
  or the error toast: changing those leaves both answers as they were.
\<close>

theorem hasSearchResults_hasNoRecordsFound_exclusive:
  "\<not> (hasSearchResults d \<and> hasNoRecordsFound d)
   \<and> (hasNoRecordsFound d \<longrightarrow> \<not> hasSearchResults d)
   \<and> hasSearchResults
        (d\<lparr>visible := (visible d)(FieldError l := b, ErrorToast := b'),
           textContent := (textContent d)(FieldError l := t, ErrorToast := t')\<rparr>)
      = hasSearchResults d
   \<and> hasNoRecordsFound
        (d\<lparr>visible := (visible d)(FieldError l := b, ErrorToast := b'),
           textContent := (textContent d)(FieldError l := t, ErrorToast := t')\<rparr>)
      = hasNoRecordsFound d"
  by (auto simp: hasSearchResults_def hasNoRecordsFound_def isNoRecordsFoundDisplayed_def
      getToastMessage_def isToastMessageVisible_def Let_def)

theorem hasSearchResults_hasNoRecordsFound_exclusive_witness:
  "hasNoRecordsFound
     \<lparr>matches = (\<lambda>l. 3), visible = (\<lambda>l. l = NoRecordsFound),
      textContent = (\<lambda>l. None), styleAttr = Inr None, inputValues = []\<rparr>
   \<and> \<not> hasSearchResults
     \<lparr>matches = (\<lambda>l. 3), visible = (\<lambda>l. l = NoRecordsFound),
      textContent = (\<lambda>l. None), styleAttr = Inr None, inputValues = []\<rparr>"
  using hasSearchResults_hasNoRecordsFound_exclusive
    [of "\<lparr>matches = (\<lambda>l. 3), visible = (\<lambda>l. l = NoRecordsFound),
      textContent = (\<lambda>l. None), styleAttr = Inr None, inputValues = []\<rparr>"]
  by (simp add: hasNoRecordsFound_def isNoRecordsFoundDisplayed_def)

theorem validation_error_with_stale_results_counterexample:
  "hasAnyValidationError
     \<lparr>matches = (\<lambda>l. if l = ResultRows then 2 else 1),
      visible = (\<lambda>l. l = FieldError ''Username'' \<or> l = SearchResults),
      textContent = (\<lambda>l. if l = FieldError ''Username'' then Some ''Required'' else None),
      styleAttr = Inr None, inputValues = []\<rparr>
   \<and> hasSearchResults
     \<lparr>matches = (\<lambda>l. if l = ResultRows then 2 else 1),
      visible = (\<lambda>l. l = FieldError ''Username'' \<or> l = SearchResults),
      textContent = (\<lambda>l. if l = FieldError ''Username'' then Some ''Required'' else None),
      styleAttr = Inr None, inputValues = []\<rparr>
   \<and> hasSearchResults_base
     \<lparr>matches = (\<lambda>l. if l = ResultRows then 2 else 1),
      visible = (\<lambda>l. l = FieldError ''Username'' \<or> l = SearchResults),
      textContent = (\<lambda>l. if l = FieldError ''Username'' then Some ''Required'' else None),
      styleAttr = Inr None, inputValues = []\<rparr>"
  by (simp add: hasAnyValidationError_def hasUsernameError_def hasFieldError_def
      hasSearchResults_def isNoRecordsFoundDisplayed_def getToastMessage_def
      isToastMessageVisible_def hasSearchResults_base_def isElementVisible_def
      toLowerCase_def Let_def)

text \<open>
  Claim C5. The no-records verdict is the disjunction of the two signals, the visible
  marker and the toast whose text contains \<^verbatim>\<open>no records found\<close> in any case (lemma
  \<open>isNoRecordsFoundDisplayed_strict_eq\<close>), but a page with that verdict can have an empty
  message. \<^verbatim>\<open>getNoRecordsFoundMessage\<close> keeps the marker's text only when it contains
  \<^verbatim>\<open>No Records Found\<close> in exactly this case, whereas the toast branch of the same method
  lower-cases the text before it looks. On a page whose visible marker reads
  \<^verbatim>\<open>no records found\<close> the verdict is true and the message is empty; the same text in a
  toast gives both the verdict and the message.
\<close>

theorem getNoRecordsFoundMessage_marker_case:
  "hasNoRecordsFound_strict
     \<lparr>matches = (\<lambda>l. if l = NoRecordsFound then 1 else 0),
      visible = (\<lambda>l. l = NoRecordsFound),
      textContent = (\<lambda>l. if l = NoRecordsFound then Some ''no records found'' else None),
      styleAttr = Inr None, inputValues = []\<rparr> = Inr True
   \<and> hasNoRecordsFound_base
     \<lparr>matches = (\<lambda>l. if l = NoRecordsFound then 1 else 0),
      visible = (\<lambda>l. l = NoRecordsFound),
      textContent = (\<lambda>l. if l = NoRecordsFound then Some ''no records found'' else None),
      styleAttr = Inr None, inputValues = []\<rparr>
   \<and> getNoRecordsFoundMessage
     \<lparr>matches = (\<lambda>l. if l = NoRecordsFound then 1 else 0),
      visible = (\<lambda>l. l = NoRecordsFound),
      textContent = (\<lambda>l. if l = NoRecordsFound then Some ''no records found'' else None),
      styleAttr = Inr None, inputValues = []\<rparr> = Inr []
   \<and> hasNoRecordsFound_strict
     \<lparr>matches = (\<lambda>l. if l = ToastMessage then 1 else 0),
      visible = (\<lambda>l. l = ToastMessage),
      textContent = (\<lambda>l. if l = ToastMessage then Some ''no records found'' else None),
      styleAttr = Inr None, inputValues = []\<rparr> = Inr True
   \<and> getNoRecordsFoundMessage
     \<lparr>matches = (\<lambda>l. if l = ToastMessage then 1 else 0),
      visible = (\<lambda>l. l = ToastMessage),
      textContent = (\<lambda>l. if l = ToastMessage then Some ''no records found'' else None),
      styleAttr = Inr None, inputValues = []\<rparr> = Inr ''no records found''"
proof -
  let ?marker = "\<lparr>matches = (\<lambda>l. if l = NoRecordsFound then 1 else 0),
      visible = (\<lambda>l. l = NoRecordsFound),
      textContent = (\<lambda>l. if l = NoRecordsFound then Some ''no records found'' else None),
      styleAttr = Inr None, inputValues = []\<rparr>"
  let ?toast = "\<lparr>matches = (\<lambda>l. if l = ToastMessage then 1 else 0),
      visible = (\<lambda>l. l = ToastMessage),
      textContent = (\<lambda>l. if l = ToastMessage then Some ''no records found'' else None),
      styleAttr = Inr None, inputValues = []\<rparr>"
  have lower: "toLowerCase ''no records found'' = ''no records found''"
    by (simp add: toLowerCase_def toLowerChar_def)
  have inc: "str_includes ''no records found'' ''no records found''"
    by simp
  have exact: "\<not> str_includes ''no records found'' ''No Records Found''"
    by simp
  have tr: "trim ''no records found'' = ''no records found''"
    by (simp add: trim_def isWhiteSpace_def)
  have v1: "hasNoRecordsFound_strict ?marker = Inr True"
    by (simp add: hasNoRecordsFound_strict_def isNoRecordsFoundDisplayed_strict_eq)
  have m1: "getNoRecordsFoundMessage ?marker = Inr []"
    using exact
    by (simp add: getNoRecordsFoundMessage_def isVisible_def Let_def truthy_def orEmpty_def
        isToastMessageVisible_strict_def)
  have v2: "hasNoRecordsFound_strict ?toast = Inr True"
    using inc
    by (simp add: hasNoRecordsFound_strict_def isNoRecordsFoundDisplayed_strict_eq orEmpty_def
        lower)
  have m2: "getNoRecordsFoundMessage ?toast = Inr ''no records found''"
    using inc
    by (simp add: getNoRecordsFoundMessage_def isVisible_def Let_def truthy_def orEmpty_def
        isToastMessageVisible_strict_def getToastMessage_strict_def lower tr)
  have b1: "hasNoRecordsFound_base ?marker"
    by (simp add: hasNoRecordsFound_base_def)
  from v1 b1 m1 v2 m2 show ?thesis by simp
qed




section \<open>Facts about actions\<close>







lemma waitForElement_visible: "visible (page w) l \<Longrightarrow> waitForElement app l t w = Inr w"
  by (simp add: waitForElement_def settle_def waitFor_def)


lemma clickElement_visible:
  "visible (page w) l \<Longrightarrow> clickElement app l t w = Inr (act app (Click l) w)"
  by (simp add: clickElement_def waitForElement_visible andThen_def)











section \<open>Acting on the page: the claims\<close>




section \<open>Facts about waiting\<close>

lemma find_Some_set: "find P xs = Some x \<Longrightarrow> x \<in> set xs"
  by (induction xs) (auto split: if_splits)

lemma waitFor_cases:
  "(\<exists>n. n \<le> t \<and> waitFor app d l t = (n, Inr ())) \<or> waitFor app d l t = (t, Inl TimeoutError)"
proof (cases "visible d l")
  case True
  then show ?thesis by (simp add: waitFor_def)
next
  case False
  show ?thesis
  proof (cases "find (\<lambda>n. visible (app (Elapse n) d) l) [1..<Suc t]")
    case None
    with False show ?thesis by (simp add: waitFor_def)
  next
    case (Some n)
    then have "n \<in> set [1..<Suc t]" by (rule find_Some_set)
    then have "n \<le> t" by (simp del: upt_Suc)
    with False Some show ?thesis by (simp add: waitFor_def)
  qed
qed

lemma waitFor_fst_le: "fst (waitFor app d l t) \<le> t"
  using waitFor_cases [of t app d l] by auto

lemma waitFor_never:
  assumes "\<not> visible d l" and "\<forall>n. 1 \<le> n \<and> n \<le> t \<longrightarrow> \<not> visible (app (Elapse n) d) l"
  shows "waitFor app d l t = (t, Inl TimeoutError)"
proof -
  from assms(2) have "find (\<lambda>n. visible (app (Elapse n) d) l) [1..<Suc t] = None"
    by (auto simp: find_None_iff simp del: upt_Suc)
  with assms(1) show ?thesis by (simp add: waitFor_def)
qed

lemma promise_race_fst_le: "fst (promise_race p qs) \<le> fst p"
proof (induction qs arbitrary: p)
  case Nil
  then show ?case by simp
next
  case (Cons q qs)
  have "fst (promise_race (if fst q < fst p then q else p) qs)
          \<le> fst (if fst q < fst p then q else p)"
    by (rule Cons.IH)
  also have "\<dots> \<le> fst p" by simp
  finally show ?case by simp
qed

lemma settle_Inl: "settle app s w = Inl (e, w') \<Longrightarrow> snd s = Inl e"
  by (auto simp: settle_def Let_def split: sum.splits)

lemma waitFor_error: "snd (waitFor app d l t) = Inl e \<Longrightarrow> e = TimeoutError"
  using waitFor_cases [of t app d l] by auto

lemma waitForElement_Inl: "waitForElement app l t w = Inl (e, w') \<Longrightarrow> e = TimeoutError"
  unfolding waitForElement_def by (blast dest: settle_Inl waitFor_error)

lemma find_upt_first:
  assumes "t < n" and "P t" and "\<forall>u<t. \<not> P u"
  shows "find P [0..<n] = Some t"
proof -
  have "\<exists>i<length [0..<n]. P ([0..<n] ! i) \<and> t = [0..<n] ! i \<and> (\<forall>j<i. \<not> P ([0..<n] ! j))"
    using assms by (intro exI [of _ t]) simp
  then show ?thesis by (simp only: find_Some_iff)
qed

lemma find_upt_None: "\<forall>u<n. \<not> P u \<Longrightarrow> find P [0..<n] = None"
  by (simp add: find_None_iff)

lemma find_Some_holds: "find P xs = Some x \<Longrightarrow> P x"
  by (induction xs) (auto split: if_splits)

lemma waitFor_strict_first:
  assumes "t \<le> T"
    and "1 < matches (pageAfter app t d) l \<or> visible (pageAfter app t d) l"
    and "\<forall>u<t. \<not> (1 < matches (pageAfter app u d) l \<or> visible (pageAfter app u d) l)"
  shows "waitFor_strict app d l T =
           (t, if 1 < matches (pageAfter app t d) l then Inl EngineError else Inr ())"
proof -
  from assms(1) have "t < Suc T" by simp
  from find_upt_first [OF this, of "\<lambda>t. 1 < matches (pageAfter app t d) l \<or> visible (pageAfter app t d) l"]
    assms(2,3)
  have "find (\<lambda>t. 1 < matches (pageAfter app t d) l \<or> visible (pageAfter app t d) l) [0..<Suc T] = Some t"
    by blast
  then show ?thesis unfolding waitFor_strict_def by simp
qed

lemma waitFor_strict_never:
  assumes "\<forall>u\<le>T. \<not> (1 < matches (pageAfter app u d) l \<or> visible (pageAfter app u d) l)"
  shows "waitFor_strict app d l T = (T, Inl TimeoutError)"
proof -
  from assms
  have "find (\<lambda>t. 1 < matches (pageAfter app t d) l \<or> visible (pageAfter app t d) l) [0..<Suc T] = None"
    by (intro find_upt_None) (simp add: less_Suc_eq_le)
  then show ?thesis unfolding waitFor_strict_def by simp
qed

lemma waitFor_strict_not_before:
  assumes "t \<le> T"
    and "\<forall>u<t. \<not> (1 < matches (pageAfter app u d) l \<or> visible (pageAfter app u d) l)"
  shows "t \<le> fst (waitFor_strict app d l T)"
proof (cases "find (\<lambda>t. 1 < matches (pageAfter app t d) l \<or> visible (pageAfter app t d) l) [0..<Suc T]")
  case None
  with assms(1) show ?thesis unfolding waitFor_strict_def by simp
next
  case (Some n)
  then have "1 < matches (pageAfter app n d) l \<or> visible (pageAfter app n d) l"
    by (rule find_Some_holds)
  with assms(2) have "\<not> n < t" by blast
  with Some show ?thesis unfolding waitFor_strict_def by simp
qed

lemma find_cong_set: "(\<And>x. x \<in> set xs \<Longrightarrow> P x = Q x) \<Longrightarrow> find P xs = find Q xs"
  by (induction xs) simp_all

lemma waitFor_strict_agrees:
  assumes "\<forall>u\<le>T. \<not> 1 < matches (pageAfter app u d) l"
  shows "waitFor_strict app d l T = waitFor app d l T"
proof -
  let ?P = "\<lambda>t. 1 < matches (pageAfter app t d) l \<or> visible (pageAfter app t d) l"
  have split: "[0..<Suc T] = 0 # [1..<Suc T]"
    by (simp add: upt_rec del: upt_Suc)
  have tail: "find ?P [1..<Suc T] = find (\<lambda>t. visible (app (Elapse t) d) l) [1..<Suc T]"
  proof (rule find_cong_set)
    fix x assume "x \<in> set [1..<Suc T]"
    then have x: "1 \<le> x" "x \<le> T" by (simp_all del: upt_Suc)
    with assms have "\<not> 1 < matches (pageAfter app x d) l" by blast
    with x show "?P x = visible (app (Elapse x) d) l" by (simp add: pageAfter_def)
  qed
  have m0: "\<not> 1 < matches d l"
    using assms [rule_format, of 0] by (simp add: pageAfter_def)
  have zero: "?P 0 = visible d l"
    using m0 by (simp add: pageAfter_def)
  show ?thesis
  proof (cases "visible d l")
    case True
    with m0 show ?thesis
      unfolding waitFor_strict_def waitFor_def split
      by (simp add: pageAfter_def del: upt_Suc)
  next
    case False
    with zero have nz: "\<not> ?P 0" by simp
    have "find ?P [0..<Suc T] = find (\<lambda>t. visible (app (Elapse t) d) l) [1..<Suc T]"
      unfolding split using nz tail by (simp del: upt_Suc)
    moreover have "\<not> 1 < matches (pageAfter app t d) l"
      if "find (\<lambda>t. visible (app (Elapse t) d) l) [1..<Suc T] = Some t" for t
    proof -
      from that have "t \<in> set [1..<Suc T]" by (rule find_Some_set)
      then have "t \<le> T" by (simp del: upt_Suc)
      with assms show ?thesis by simp
    qed
    ultimately show ?thesis
      using False unfolding waitFor_strict_def waitFor_def
      by (auto split: option.splits)
  qed
qed

lemma promise_race_two_fst: "fst (promise_race p [q]) = min (fst p) (fst q)"
  by (simp add: min_def)

lemma promise_race_three_resolved:
  assumes "p = (t, Inr ()) \<or> t < fst p"
    and "q = (t, Inr ()) \<or> t < fst q"
    and "r = (t, Inr ()) \<or> t < fst r"
    and "p = (t, Inr ()) \<or> q = (t, Inr ()) \<or> r = (t, Inr ())"
  shows "promise_race p [q, r] = (t, Inr ())"
  using assms by (cases p; cases q; cases r) auto

lemma promise_race_three_timeout:
  assumes "p = (T, Inl TimeoutError)" and "T \<le> fst q" and "T \<le> fst r"
  shows "promise_race p [q, r] = (T, Inl TimeoutError)"
  using assms by simp

lemma settle_caught:
  "(case settle app s w of Inr w2 \<Rightarrow> Inr w2 | Inl (e, w2) \<Rightarrow> Inr w2)
     = Inr (if fst s = 0 then w else act app (Elapse (fst s)) w)"
  by (simp add: settle_def Let_def split: sum.splits)

lemma waitForSearchResults_eq:
  "waitForSearchResults app w =
     (let w1 = act app (Elapse 1000) w in
      if 1 < matches (page w1) NoRecordsFound then Inl (EngineError, w1)
      else if visible (page w1) NoRecordsFound \<or> 0 < matches (page w1) ResultRows \<or>
              (\<not> 1 < matches (page w1) ToastMessage \<and> visible (page w1) ToastMessage \<and>
               str_includes (toLowerCase (orEmpty (textContent (page w1) ToastMessage)))
                 ''no records found'')
           then Inr w1
           else Inr (if fst (promise_race
                               (waitFor_strict app (page w1) SearchResults 3000)
                               [waitFor_strict app (page w1) NoRecordsFound 3000]) = 0
                     then w1
                     else act app (Elapse (fst (promise_race
                               (waitFor_strict app (page w1) SearchResults 3000)
                               [waitFor_strict app (page w1) NoRecordsFound 3000]))) w1))"
  unfolding waitForSearchResults_def hasSearchResults_await_strict_def hasSearchResults_strict_def
    hasNoRecordsFound_strict_def isNoRecordsFoundDisplayed_strict_eq waitForTimeout_def
    SEARCH_RESULTS_def Let_def settle_caught
  by auto

lemma waitForAdminSearchResults_eq:
  "waitForAdminSearchResults app w =
     (let w1 = act app (Elapse 1000) w in
      if 1 < matches (page w1) NoRecordsFound then Inl (EngineError, w1)
      else if visible (page w1) NoRecordsFound \<or> 0 < matches (page w1) ResultRows \<or>
              (\<not> 1 < matches (page w1) ToastMessage \<and> visible (page w1) ToastMessage \<and>
               str_includes (toLowerCase (orEmpty (textContent (page w1) ToastMessage)))
                 ''no records found'')
           then Inr w1
           else case settle app
                       (promise_race
                          (waitFor_strict app (page w1) SearchResults 3000)
                          [waitFor_strict app (page w1) NoRecordsFound 3000,
                           waitFor_strict app (page w1) ToastMessage 10000]) w1 of
                  Inr w2 \<Rightarrow> Inr w2
                | Inl (e, w2) \<Rightarrow>
                    if 0 < matches (page (act app (Elapse 1000) w2)) SearchResults
                    then waitForElement app SearchResults 3000 (act app (Elapse 1000) w2)
                    else Inr (act app (Elapse 1000) w2))"
  unfolding waitForAdminSearchResults_def hasSearchResults_await_strict_def
    hasSearchResults_strict_def hasNoRecordsFound_strict_def isNoRecordsFoundDisplayed_strict_eq
    waitForTimeout_def SEARCH_RESULTS_def ELEMENT_WAIT_def ELEMENT_QUICK_WAIT_def Let_def
  by auto

text \<open>
  Claim C4, as amended. Both waits first pause for a second and read the page; \<open>d1\<close> is
  the page then, \<open>after t\<close> the page \<open>t\<close> ms later, and a wait for a locator settles at the
  first moment the locator matches more than one element or its element is visible. If
  the no-records marker is ambiguous on \<open>d1\<close>, the read raises before the \<^verbatim>\<open>try\<close> block and
  the wait fails with the engine's error. Otherwise, if \<open>d1\<close> shows a no-records signal or
  a result row, the wait returns at once. Otherwise \<^verbatim>\<open>waitForSearchResults\<close> races two
  waits, for the results body and for the marker, each bounded by 3000 ms: it returns at
  the first moment one of them settles, and at 3000 ms when neither does, the timeout
  being caught; it fails in no other way than through the ambiguous marker.
  \<^verbatim>\<open>waitForAdminSearchResults\<close> adds a wait for a toast to the race and returns at the first
  moment before 3000 ms at which one of the three resolves. When none settles it pauses
  for another second and returns, unless a table body is then attached and hidden: it
  waits up to 3000 ms more for that body and fails with a timeout when the body stays
  hidden. No hypothesis speaks of the field errors: neither wait reads them.
\<close>

theorem waitForSearchResults_race:
  fixes app :: app and w :: world
  defines "d1 \<equiv> app (Elapse 1000) (page w)"
  defines "w1 \<equiv> \<lparr>page = d1, trace = trace w @ [Elapse 1000]\<rparr>"
  defines "after \<equiv> \<lambda>t. if t = 0 then d1 else app (Elapse t) d1"
  defines "later \<equiv> \<lambda>t. if t = 0 then w1
                          else \<lparr>page = app (Elapse t) d1,
                                trace = trace w @ [Elapse 1000, Elapse t]\<rparr>"
  defines "settles \<equiv> \<lambda>l t. 1 < matches (after t) l \<or> visible (after t) l"
  defines "ambiguous \<equiv> 1 < matches d1 NoRecordsFound"
  defines "quick \<equiv> visible d1 NoRecordsFound \<or> 0 < matches d1 ResultRows \<or>
                    (\<not> 1 < matches d1 ToastMessage \<and> visible d1 ToastMessage \<and>
                     str_includes (toLowerCase (orEmpty (textContent d1 ToastMessage)))
                       ''no records found'')"
  defines "w3 \<equiv> \<lparr>page = app (Elapse 1000) (app (Elapse 3000) d1),
                   trace = trace w @ [Elapse 1000, Elapse 3000, Elapse 1000]\<rparr>"
  shows "(ambiguous \<longrightarrow>
            waitForSearchResults app w = Inl (EngineError, w1) \<and>
            waitForAdminSearchResults app w = Inl (EngineError, w1))
       \<and> (\<not> ambiguous \<and> quick \<longrightarrow>
            waitForSearchResults app w = Inr w1 \<and> waitForAdminSearchResults app w = Inr w1)
       \<and> (\<forall>t\<le>3000. \<not> ambiguous \<and> \<not> quick \<and>
            (settles SearchResults t \<or> settles NoRecordsFound t) \<and>
            (\<forall>u<t. \<not> settles SearchResults u \<and> \<not> settles NoRecordsFound u) \<longrightarrow>
            waitForSearchResults app w = Inr (later t))
       \<and> (\<not> ambiguous \<and> \<not> quick \<and>
            (\<forall>u\<le>3000. \<not> settles SearchResults u \<and> \<not> settles NoRecordsFound u) \<longrightarrow>
            waitForSearchResults app w = Inr (later 3000))
       \<and> (\<forall>t<3000. \<not> ambiguous \<and> \<not> quick \<and>
            (settles SearchResults t \<or> settles NoRecordsFound t \<or> settles ToastMessage t) \<and>
            (\<forall>u<t. \<not> settles SearchResults u \<and> \<not> settles NoRecordsFound u \<and>
                    \<not> settles ToastMessage u) \<and>
            (\<forall>l\<in>{SearchResults, NoRecordsFound, ToastMessage}. \<not> 1 < matches (after t) l) \<longrightarrow>
            waitForAdminSearchResults app w = Inr (later t))
       \<and> (\<not> ambiguous \<and> \<not> quick \<and>
            (\<forall>u\<le>3000. \<not> settles SearchResults u \<and> \<not> settles NoRecordsFound u) \<and>
            (\<forall>u<3000. \<not> settles ToastMessage u) \<longrightarrow>
            (matches (page w3) SearchResults = 0 \<or> visible (page w3) SearchResults \<longrightarrow>
               waitForAdminSearchResults app w = Inr w3) \<and>
            (0 < matches (page w3) SearchResults \<and> \<not> visible (page w3) SearchResults \<and>
             (\<forall>n. 1 \<le> n \<and> n \<le> 3000 \<longrightarrow> \<not> visible (app (Elapse n) (page w3)) SearchResults) \<longrightarrow>
               waitForAdminSearchResults app w =
                 Inl (TimeoutError,
                      \<lparr>page = app (Elapse 3000) (page w3),
                       trace = trace w3 @ [Elapse 3000]\<rparr>)))
       \<and> (\<forall>e w'. waitForSearchResults app w = Inl (e, w') \<longrightarrow>
            ambiguous \<and> e = EngineError \<and> w' = w1)
       \<and> (\<forall>e w'. waitForAdminSearchResults app w = Inl (e, w') \<longrightarrow>
            (ambiguous \<and> e = EngineError \<and> w' = w1) \<or>
            (\<not> ambiguous \<and> \<not> quick \<and> e = TimeoutError))"
proof -
  let ?p = "waitFor_strict app d1 SearchResults 3000"
  let ?q = "waitFor_strict app d1 NoRecordsFound 3000"
  let ?r = "waitFor_strict app d1 ToastMessage 10000"
  have w1: "act app (Elapse 1000) w = w1" "page w1 = d1"
    by (simp_all add: act_def w1_def d1_def)
  have after: "after t = pageAfter app t d1" for t
    by (simp add: after_def pageAfter_def)
  have later: "(if t = 0 then w1 else act app (Elapse t) w1) = later t" for t
    by (simp add: later_def act_def w1_def)
  have base: "waitForSearchResults app w =
      (if ambiguous then Inl (EngineError, w1)
       else if quick then Inr w1 else Inr (later (fst (promise_race ?p [?q]))))"
    unfolding waitForSearchResults_eq [of app w] Let_def w1 later ambiguous_def quick_def
    by (rule refl)
  have admin: "waitForAdminSearchResults app w =
      (if ambiguous then Inl (EngineError, w1)
       else if quick then Inr w1
       else case settle app (promise_race ?p [?q, ?r]) w1 of
              Inr w2 \<Rightarrow> Inr w2
            | Inl (e, w2) \<Rightarrow>
                if 0 < matches (page (act app (Elapse 1000) w2)) SearchResults
                then waitForElement app SearchResults 3000 (act app (Elapse 1000) w2)
                else Inr (act app (Elapse 1000) w2))"
    unfolding waitForAdminSearchResults_eq [of app w] Let_def w1 ambiguous_def quick_def
    by (rule refl)
  have c1: "waitForSearchResults app w = Inl (EngineError, w1) \<and>
            waitForAdminSearchResults app w = Inl (EngineError, w1)" if ambiguous
    using that by (simp add: base admin)
  have c2: "waitForSearchResults app w = Inr w1 \<and> waitForAdminSearchResults app w = Inr w1"
    if "\<not> ambiguous \<and> quick"
    using that by (simp add: base admin)
  have first: "waitFor_strict app d1 l T = (t, if 1 < matches (after t) l then Inl EngineError else Inr ())"
    if "t \<le> T" "settles l t" "\<forall>u<t. \<not> settles l u" for l t T
    using waitFor_strict_first [of t T app d1 l] that unfolding settles_def after by blast
  have not_before: "t \<le> fst (waitFor_strict app d1 l T)"
    if "t \<le> T" "\<forall>u<t. \<not> settles l u" for l t T
    using waitFor_strict_not_before [of t T app d1 l] that unfolding settles_def after by blast
  have never: "waitFor_strict app d1 l T = (T, Inl TimeoutError)"
    if "\<forall>u\<le>T. \<not> settles l u" for l T
    using waitFor_strict_never [of T app d1 l] that unfolding settles_def after by blast
  have c3: "waitForSearchResults app w = Inr (later t)"
    if t: "t \<le> 3000" and h: "\<not> ambiguous \<and> \<not> quick \<and>
            (settles SearchResults t \<or> settles NoRecordsFound t) \<and>
            (\<forall>u<t. \<not> settles SearchResults u \<and> \<not> settles NoRecordsFound u)" for t
  proof -
    from t h have lp: "t \<le> fst ?p" and lq: "t \<le> fst ?q"
      by (simp_all add: not_before)
    from h have "settles SearchResults t \<or> settles NoRecordsFound t" by simp
    then have "fst ?p = t \<or> fst ?q = t"
    proof
      assume "settles SearchResults t"
      with first [OF t this] h show ?thesis by simp
    next
      assume "settles NoRecordsFound t"
      with first [OF t this] h show ?thesis by simp
    qed
    with lp lq have "fst (promise_race ?p [?q]) = t"
      unfolding promise_race_two_fst by (auto simp: min_def)
    with h show ?thesis by (simp add: base)
  qed
  have c4: "waitForSearchResults app w = Inr (later 3000)"
    if h: "\<not> ambiguous \<and> \<not> quick \<and>
            (\<forall>u\<le>3000. \<not> settles SearchResults u \<and> \<not> settles NoRecordsFound u)"
  proof -
    from h have "?p = (3000, Inl TimeoutError)" "?q = (3000, Inl TimeoutError)"
      by (simp_all add: never)
    then have "fst (promise_race ?p [?q]) = 3000" by simp
    with h show ?thesis by (simp add: base)
  qed
  have c5: "waitForAdminSearchResults app w = Inr (later t)"
    if t: "t < 3000" and h: "\<not> ambiguous \<and> \<not> quick \<and>
            (settles SearchResults t \<or> settles NoRecordsFound t \<or> settles ToastMessage t) \<and>
            (\<forall>u<t. \<not> settles SearchResults u \<and> \<not> settles NoRecordsFound u \<and>
                    \<not> settles ToastMessage u) \<and>
            (\<forall>l\<in>{SearchResults, NoRecordsFound, ToastMessage}. \<not> 1 < matches (after t) l)" for t
  proof -
    have leg: "waitFor_strict app d1 l T = (t, Inr ()) \<or> t < fst (waitFor_strict app d1 l T)"
      if l: "l \<in> {SearchResults, NoRecordsFound, ToastMessage}" and T: "3000 \<le> T" for l T
    proof (cases "settles l t")
      case True
      from t T have "t \<le> T" by simp
      from first [OF this True] h l show ?thesis by auto
    next
      case False
      with h l have "\<forall>u<Suc t. \<not> settles l u" by (auto simp: less_Suc_eq)
      moreover from t T have "Suc t \<le> T" by simp
      ultimately have "Suc t \<le> fst (waitFor_strict app d1 l T)" by (intro not_before)
      then show ?thesis by simp
    qed
    have hit: "waitFor_strict app d1 l T = (t, Inr ())"
      if l: "l \<in> {SearchResults, NoRecordsFound, ToastMessage}" and T: "3000 \<le> T"
        and s: "settles l t" for l T
    proof -
      from t T have "t \<le> T" by simp
      from first [OF this s] h l show ?thesis by auto
    qed
    from h have "settles SearchResults t \<or> settles NoRecordsFound t \<or> settles ToastMessage t"
      by simp
    then have one: "?p = (t, Inr ()) \<or> ?q = (t, Inr ()) \<or> ?r = (t, Inr ())"
      using hit [of SearchResults 3000] hit [of NoRecordsFound 3000] hit [of ToastMessage 10000]
      by auto
    have race: "promise_race ?p [?q, ?r] = (t, Inr ())"
      using leg [of SearchResults 3000] leg [of NoRecordsFound 3000] leg [of ToastMessage 10000] one
      by (intro promise_race_three_resolved) simp_all
    have "settle app (t, Inr ()) w1 = Inr (if t = 0 then w1 else act app (Elapse t) w1)"
      by (simp add: settle_def)
    then have "settle app (promise_race ?p [?q, ?r]) w1 = Inr (later t)"
      unfolding race later .
    with h show ?thesis by (simp add: admin)
  qed
  have w3: "act app (Elapse 1000) (act app (Elapse 3000) w1) = w3"
    by (simp add: act_def w3_def w1_def)
  have fallback: "waitForAdminSearchResults app w =
      (if 0 < matches (page w3) SearchResults then waitForElement app SearchResults 3000 w3
       else Inr w3)"
    if h: "\<not> ambiguous \<and> \<not> quick \<and>
            (\<forall>u\<le>3000. \<not> settles SearchResults u \<and> \<not> settles NoRecordsFound u) \<and>
            (\<forall>u<3000. \<not> settles ToastMessage u)"
  proof -
    from h have p: "?p = (3000, Inl TimeoutError)" and q: "?q = (3000, Inl TimeoutError)"
      by (simp_all add: never)
    from h have r: "3000 \<le> fst ?r" by (intro not_before) simp_all
    have race: "promise_race ?p [?q, ?r] = (3000, Inl TimeoutError)"
      using p q r by (intro promise_race_three_timeout) simp_all
    have "settle app (promise_race ?p [?q, ?r]) w1
        = Inl (TimeoutError, act app (Elapse 3000) w1)"
      unfolding race by (simp add: settle_def)
    with h show ?thesis by (simp add: admin w3)
  qed
  have c6a: "waitForAdminSearchResults app w = Inr w3"
    if h: "\<not> ambiguous \<and> \<not> quick \<and>
            (\<forall>u\<le>3000. \<not> settles SearchResults u \<and> \<not> settles NoRecordsFound u) \<and>
            (\<forall>u<3000. \<not> settles ToastMessage u)"
      and g: "matches (page w3) SearchResults = 0 \<or> visible (page w3) SearchResults"
    using g unfolding fallback [OF h] by (auto simp: waitForElement_visible)
  have c6b: "waitForAdminSearchResults app w =
                 Inl (TimeoutError,
                      \<lparr>page = app (Elapse 3000) (page w3), trace = trace w3 @ [Elapse 3000]\<rparr>)"
    if h: "\<not> ambiguous \<and> \<not> quick \<and>
            (\<forall>u\<le>3000. \<not> settles SearchResults u \<and> \<not> settles NoRecordsFound u) \<and>
            (\<forall>u<3000. \<not> settles ToastMessage u)"
      and g: "0 < matches (page w3) SearchResults \<and> \<not> visible (page w3) SearchResults \<and>
             (\<forall>n. 1 \<le> n \<and> n \<le> 3000 \<longrightarrow> \<not> visible (app (Elapse n) (page w3)) SearchResults)"
  proof -
    from g have "waitFor app (page w3) SearchResults 3000 = (3000, Inl TimeoutError)"
      by (intro waitFor_never) simp_all
    then have "waitForElement app SearchResults 3000 w3
        = Inl (TimeoutError, act app (Elapse 3000) w3)"
      by (simp add: waitForElement_def settle_def)
    with g show ?thesis unfolding fallback [OF h] by (simp add: act_def)
  qed
  have c7: "ambiguous \<and> e = EngineError \<and> w' = w1"
    if "waitForSearchResults app w = Inl (e, w')" for e w'
    using that unfolding base by (simp split: if_splits)
  have c8: "(ambiguous \<and> e = EngineError \<and> w' = w1) \<or>
            (\<not> ambiguous \<and> \<not> quick \<and> e = TimeoutError)"
    if f: "waitForAdminSearchResults app w = Inl (e, w')" for e w'
  proof (cases "ambiguous \<or> quick")
    case True
    with f show ?thesis unfolding admin by (simp split: if_splits)
  next
    case False
    with f obtain w0 where "waitForElement app SearchResults 3000 w0 = Inl (e, w')"
      unfolding admin by (auto split: sum.splits prod.splits if_splits)
    then have "e = TimeoutError" by (rule waitForElement_Inl)
    with False show ?thesis by simp
  qed
  from c1 c2 c3 c4 c5 c6a c6b c7 c8 show ?thesis by blast
qed

theorem waitForSearchResults_race_witness:
  "waitForSearchResults
     (\<lambda>e d. case e of
               Elapse t \<Rightarrow>
                 if t < 250 then d
                 else if matches d SearchResults = 0
                      then d\<lparr>matches := (matches d)(SearchResults := 1)\<rparr>
                      else d\<lparr>visible := (visible d)(SearchResults := True)\<rparr>
             | _ \<Rightarrow> d)
     \<lparr>page = \<lparr>matches = (\<lambda>l. 0), visible = (\<lambda>l. False), textContent = (\<lambda>l. None),
              styleAttr = Inr None, inputValues = []\<rparr>,
      trace = []\<rparr>
   = Inr \<lparr>page = \<lparr>matches = (\<lambda>l. 0)(SearchResults := 1),
                  visible = (\<lambda>l. False)(SearchResults := True),
                  textContent = (\<lambda>l. None), styleAttr = Inr None, inputValues = []\<rparr>,
          trace = [Elapse 1000, Elapse 250]\<rparr>
   \<and> waitForAdminSearchResults
     (\<lambda>e d. case e of
               Elapse t \<Rightarrow>
                 if t < 250 then d
                 else if matches d SearchResults = 0
                      then d\<lparr>matches := (matches d)(SearchResults := 1)\<rparr>
                      else d\<lparr>visible := (visible d)(SearchResults := True)\<rparr>
             | _ \<Rightarrow> d)
     \<lparr>page = \<lparr>matches = (\<lambda>l. 0), visible = (\<lambda>l. False), textContent = (\<lambda>l. None),
              styleAttr = Inr None, inputValues = []\<rparr>,
      trace = []\<rparr>
   = Inr \<lparr>page = \<lparr>matches = (\<lambda>l. 0)(SearchResults := 1),
                  visible = (\<lambda>l. False)(SearchResults := True),
                  textContent = (\<lambda>l. None), styleAttr = Inr None, inputValues = []\<rparr>,
          trace = [Elapse 1000, Elapse 250]\<rparr>
   \<and> waitForSearchResults (\<lambda>e d. d)
     \<lparr>page = \<lparr>matches = (\<lambda>l. 2), visible = (\<lambda>l. True), textContent = (\<lambda>l. None),
              styleAttr = Inr None, inputValues = []\<rparr>,
      trace = []\<rparr>
   = Inl (EngineError,
          \<lparr>page = \<lparr>matches = (\<lambda>l. 2), visible = (\<lambda>l. True), textContent = (\<lambda>l. None),
                   styleAttr = Inr None, inputValues = []\<rparr>,
           trace = [Elapse 1000]\<rparr>)"
proof -
  let ?app = "(\<lambda>e d. case e of
               Elapse t \<Rightarrow>
                 if t < 250 then d
                 else if matches d SearchResults = 0
                      then d\<lparr>matches := (matches d)(SearchResults := 1)\<rparr>
                      else d\<lparr>visible := (visible d)(SearchResults := True)\<rparr>
             | _ \<Rightarrow> d) :: app"
  let ?w = "\<lparr>page = \<lparr>matches = (\<lambda>l. 0), visible = (\<lambda>l. False), textContent = (\<lambda>l. None),
              styleAttr = Inr None, inputValues = []\<rparr>,
      trace = []\<rparr>"
  note race = waitForSearchResults_race [of ?app ?w]
  have base: "waitForSearchResults ?app ?w
      = Inr \<lparr>page = \<lparr>matches = (\<lambda>l. 0)(SearchResults := 1),
                  visible = (\<lambda>l. False)(SearchResults := True),
                  textContent = (\<lambda>l. None), styleAttr = Inr None, inputValues = []\<rparr>,
          trace = [Elapse 1000, Elapse 250]\<rparr>"
    using race [THEN conjunct2, THEN conjunct2, THEN conjunct1, rule_format, of 250]
    by (simp add: toLowerCase_def orEmpty_def)
  have admin: "waitForAdminSearchResults ?app ?w
      = Inr \<lparr>page = \<lparr>matches = (\<lambda>l. 0)(SearchResults := 1),
                  visible = (\<lambda>l. False)(SearchResults := True),
                  textContent = (\<lambda>l. None), styleAttr = Inr None, inputValues = []\<rparr>,
          trace = [Elapse 1000, Elapse 250]\<rparr>"
    using race [THEN conjunct2, THEN conjunct2, THEN conjunct2, THEN conjunct2, THEN conjunct1,
        rule_format, of 250]
    by (simp add: toLowerCase_def orEmpty_def)
  have raised: "waitForSearchResults (\<lambda>e d. d)
     \<lparr>page = \<lparr>matches = (\<lambda>l. 2), visible = (\<lambda>l. True), textContent = (\<lambda>l. None),
              styleAttr = Inr None, inputValues = []\<rparr>,
      trace = []\<rparr>
   = Inl (EngineError,
          \<lparr>page = \<lparr>matches = (\<lambda>l. 2), visible = (\<lambda>l. True), textContent = (\<lambda>l. None),
                   styleAttr = Inr None, inputValues = []\<rparr>,
           trace = [Elapse 1000]\<rparr>)"
    using waitForSearchResults_race
      [of "\<lambda>e d. d"
          "\<lparr>page = \<lparr>matches = (\<lambda>l. 2), visible = (\<lambda>l. True), textContent = (\<lambda>l. None),
                   styleAttr = Inr None, inputValues = []\<rparr>,
            trace = []\<rparr>", THEN conjunct1]
    by simp
  from base admin raised show ?thesis by simp
qed

theorem waitForSearchResults_timeout_caught_counterexample:
  "waitForSearchResults (\<lambda>e d. d)
        \<lparr>page = \<lparr>matches = (\<lambda>l. 0), visible = (\<lambda>l. False), textContent = (\<lambda>l. None),
                 styleAttr = Inr None, inputValues = []\<rparr>,
         trace = []\<rparr>
     = Inr \<lparr>page = \<lparr>matches = (\<lambda>l. 0), visible = (\<lambda>l. False), textContent = (\<lambda>l. None),
                    styleAttr = Inr None, inputValues = []\<rparr>,
            trace = [Elapse 1000, Elapse 3000]\<rparr>
   \<and> waitForAdminSearchResults (\<lambda>e d. d)
        \<lparr>page = \<lparr>matches = (\<lambda>l. 0), visible = (\<lambda>l. False), textContent = (\<lambda>l. None),
                 styleAttr = Inr None, inputValues = []\<rparr>,
         trace = []\<rparr>
     = Inr \<lparr>page = \<lparr>matches = (\<lambda>l. 0), visible = (\<lambda>l. False), textContent = (\<lambda>l. None),
                    styleAttr = Inr None, inputValues = []\<rparr>,
            trace = [Elapse 1000, Elapse 3000, Elapse 1000]\<rparr>
   \<and> waitForSearchResults
        (\<lambda>e d. d\<lparr>matches := (\<lambda>l. if l = FieldError ''Username'' then 1 else 0),
                  visible := (\<lambda>l. l = FieldError ''Username'')\<rparr>)
        \<lparr>page = \<lparr>matches = (\<lambda>l. 0), visible = (\<lambda>l. False), textContent = (\<lambda>l. None),
                 styleAttr = Inr None, inputValues = []\<rparr>,
         trace = []\<rparr>
     = Inr \<lparr>page = \<lparr>matches = (\<lambda>l. if l = FieldError ''Username'' then 1 else 0),
                    visible = (\<lambda>l. l = FieldError ''Username''), textContent = (\<lambda>l. None),
                    styleAttr = Inr None, inputValues = []\<rparr>,
            trace = [Elapse 1000, Elapse 3000]\<rparr>
   \<and> waitFor_strict (\<lambda>e d. d)
        \<lparr>matches = (\<lambda>l. 0), visible = (\<lambda>l. False), textContent = (\<lambda>l. None),
         styleAttr = Inr None, inputValues = []\<rparr> ToastMessage ELEMENT_WAIT
     = (10000, Inl TimeoutError)"
proof -
  let ?app = "(\<lambda>e d. d) :: app"
  let ?d = "\<lparr>matches = (\<lambda>l. 0), visible = (\<lambda>l. False), textContent = (\<lambda>l. None),
             styleAttr = Inr None, inputValues = []\<rparr>"
  let ?fe = "\<lparr>matches = (\<lambda>l. if l = FieldError ''Username'' then 1 else 0),
              visible = (\<lambda>l. l = FieldError ''Username''), textContent = (\<lambda>l. None),
              styleAttr = Inr None, inputValues = []\<rparr>"
  let ?app' = "(\<lambda>e d. d\<lparr>matches := (\<lambda>l. if l = FieldError ''Username'' then 1 else 0),
                  visible := (\<lambda>l. l = FieldError ''Username'')\<rparr>) :: app"
  have never: "waitFor_strict ?app ?d l T = (T, Inl TimeoutError)" for l T
    by (rule waitFor_strict_never) (simp add: pageAfter_def)
  have never': "waitFor_strict ?app' ?fe l T = (T, Inl TimeoutError)"
    if "l \<noteq> FieldError ''Username''" for l T
    using that by (intro waitFor_strict_never) (simp add: pageAfter_def)
  have inert: "waitFor ?app ?d l T = (T, Inl TimeoutError)" for l T
    by (rule waitFor_never) simp_all
  have base: "waitForSearchResults ?app \<lparr>page = ?d, trace = []\<rparr>
      = Inr \<lparr>page = ?d, trace = [Elapse 1000, Elapse 3000]\<rparr>"
    unfolding waitForSearchResults_eq
    by (simp add: Let_def act_def never toLowerCase_def orEmpty_def)
  have admin: "waitForAdminSearchResults ?app \<lparr>page = ?d, trace = []\<rparr>
      = Inr \<lparr>page = ?d, trace = [Elapse 1000, Elapse 3000, Elapse 1000]\<rparr>"
    unfolding waitForAdminSearchResults_eq
    by (simp add: Let_def act_def never settle_def toLowerCase_def orEmpty_def)
  have field: "waitForSearchResults ?app' \<lparr>page = ?d, trace = []\<rparr>
      = Inr \<lparr>page = ?fe, trace = [Elapse 1000, Elapse 3000]\<rparr>"
    unfolding waitForSearchResults_eq
    by (simp add: Let_def act_def never' toLowerCase_def orEmpty_def)
  from base admin field show ?thesis
    by (simp add: never ELEMENT_WAIT_def)
qed

text \<open>
  Claim C8. Let the application empty its text inputs on Reset (\<open>resetEmptiesInputs\<close>).
  Then on every page on which the Reset button is visible, whatever the page shows of
  an earlier search, one call of \<^verbatim>\<open>resetSearchCriteria\<close> returns normally, having clicked
  Reset once and waited, and \<^verbatim>\<open>verifyDefaultSearchState\<close> holds on the page it leaves.
\<close>

theorem resetSearchCriteria_default_state:
  assumes "resetEmptiesInputs app" and "visible (page w) ResetButton"
  shows "\<exists>w'. resetSearchCriteria app w = Inr w' \<and>
              verifyDefaultSearchState (page w') \<and>
              trace w' = trace w @ [Click ResetButton, Elapse ELEMENT_QUICK_WAIT]"
proof -
  let ?w' = "waitForTimeout app ELEMENT_QUICK_WAIT (act app (Click ResetButton) w)"
  from assms(2) have run: "resetSearchCriteria app w = Inr ?w'"
    by (simp add: resetSearchCriteria_def clickResetButton_def clickElement_visible andThen_def)
  have "page ?w' = app (Elapse ELEMENT_QUICK_WAIT) (app (Click ResetButton) (page w))"
    by (simp add: waitForTimeout_def act_def)
  with assms(1) have "verifyDefaultSearchState (page ?w')"
    by (simp add: resetEmptiesInputs_def verifyDefaultSearchState_def)
  moreover have "trace ?w' = trace w @ [Click ResetButton, Elapse ELEMENT_QUICK_WAIT]"
    by (simp add: waitForTimeout_def act_def)
  ultimately show ?thesis using run by blast
qed

lemma allInputsBlank_emptied: "allInputsBlank (map (\<lambda>v. []) vs)"
  by (induction vs) (simp_all add: trim_Nil)

theorem resetSearchCriteria_default_state_witness:
  "\<exists>w'. resetSearchCriteria
          (\<lambda>e d. if e = Click ResetButton
                  then d\<lparr>inputValues := map (\<lambda>v. []) (inputValues d)\<rparr> else d)
          \<lparr>page = \<lparr>matches = (\<lambda>l. 1), visible = (\<lambda>l. True), textContent = (\<lambda>l. None),
                   styleAttr = Inr None, inputValues = [''Admin'', ''Test Employee'']\<rparr>,
           trace = []\<rparr> = Inr w'
        \<and> verifyDefaultSearchState (page w')
        \<and> trace w' = [Click ResetButton, Elapse 1000]"
proof -
  let ?app = "(\<lambda>e d. if e = Click ResetButton
                  then d\<lparr>inputValues := map (\<lambda>v. []) (inputValues d)\<rparr> else d) :: app"
  let ?w = "\<lparr>page = \<lparr>matches = (\<lambda>l. 1), visible = (\<lambda>l. True), textContent = (\<lambda>l. None),
                   styleAttr = Inr None, inputValues = [''Admin'', ''Test Employee'']\<rparr>,
           trace = []\<rparr>"
  have contract: "resetEmptiesInputs ?app"
    by (simp add: resetEmptiesInputs_def allInputsBlank_emptied)
  have vis: "visible (page ?w) ResetButton" by simp
  from resetSearchCriteria_default_state [OF contract vis] show ?thesis
    by (simp add: ELEMENT_QUICK_WAIT_def)
qed

text \<open>
  Claim C9, as amended. Let the application toggle the panel through its inline style
  (\<open>togglesInlineDisplay\<close>). Starting from a page on which the panel is visible and the
  toggle button is visible, one call of \<^verbatim>\<open>toggleSearchPanel\<close> makes
  \<^verbatim>\<open>isSearchPanelVisible\<close> false and a second call makes it true again. On a page on which
  the toggle button is not visible a call does nothing.
\<close>

theorem toggleSearchPanel_involution:
  "(togglesInlineDisplay app \<and> visible (page w) FilterToggle \<and> isSearchPanelVisible (page w)
      \<longrightarrow> (\<exists>w1 w2. toggleSearchPanel app w = Inr w1 \<and> isSearchPanelVisible (page w1) = False \<and>
                   toggleSearchPanel app w1 = Inr w2 \<and> isSearchPanelVisible (page w2) = True))
   \<and> (\<not> visible (page w) FilterToggle \<longrightarrow> toggleSearchPanel app w = Inr w)"
proof -
  have noop: "toggleSearchPanel app w = Inr w" if "\<not> visible (page w) FilterToggle"
    using that by (simp add: toggleSearchPanel_def)
  have twice: "\<exists>w1 w2. toggleSearchPanel app w = Inr w1 \<and> isSearchPanelVisible (page w1) = False \<and>
                   toggleSearchPanel app w1 = Inr w2 \<and> isSearchPanelVisible (page w2) = True"
    if contract: "togglesInlineDisplay app" and button: "visible (page w) FilterToggle"
      and shown: "isSearchPanelVisible (page w)"
  proof -
    let ?w1 = "act app (Click FilterToggle) w"
    let ?w2 = "act app (Click FilterToggle) ?w1"
    have step: "matches (app (Click FilterToggle) d) SearchPanel = matches d SearchPanel"
      "visible (app (Click FilterToggle) d) FilterToggle = visible d FilterToggle"
      "styleAttr (app (Click FilterToggle) d) =
         Inr (if isSearchPanelVisible d then Some ''display: none;'' else None)" for d
      using contract by (simp_all add: togglesInlineDisplay_def)
    have hidden_style: "hasDisplayNone ''display: none;''"
      by (simp add: hasDisplayNone_def toLowerCase_def toLowerChar_def)
    from shown have present: "0 < matches (page w) SearchPanel"
      by (auto simp: isSearchPanelVisible_def isSearchPanelVisible_try_def Let_def
          split: if_splits)
    have t1: "toggleSearchPanel app w = Inr ?w1"
      using button by (simp add: toggleSearchPanel_def clickElement_visible)
    have p1: "page ?w1 = app (Click FilterToggle) (page w)" by (simp add: act_def)
    have v1: "isSearchPanelVisible (page ?w1) = False"
      using present shown hidden_style
      by (simp add: p1 isSearchPanelVisible_def isSearchPanelVisible_try_def step truthy_def
          orEmpty_def)
    have b1: "visible (page ?w1) FilterToggle" using button by (simp add: p1 step)
    have t2: "toggleSearchPanel app ?w1 = Inr ?w2"
      using b1 by (simp add: toggleSearchPanel_def clickElement_visible)
    have p2: "page ?w2 = app (Click FilterToggle) (page ?w1)" by (simp add: act_def)
    have "styleAttr (page ?w2) = Inr None" using v1 by (simp add: p2 step)
    moreover have "0 < matches (page ?w2) SearchPanel" using present by (simp add: p2 p1 step)
    ultimately have v2: "isSearchPanelVisible (page ?w2) = True"
      by (simp add: isSearchPanelVisible_def isSearchPanelVisible_try_def truthy_def)
    from t1 v1 t2 v2 show ?thesis by blast
  qed
  from noop twice show ?thesis by blast
qed

theorem toggleSearchPanel_involution_witness:
  "\<exists>w1 w2.
     toggleSearchPanel
       (\<lambda>e d. if e = Click FilterToggle
               then d\<lparr>styleAttr :=
                        Inr (if isSearchPanelVisible d then Some ''display: none;'' else None)\<rparr>
               else d)
       \<lparr>page = \<lparr>matches = (\<lambda>l. 1), visible = (\<lambda>l. True), textContent = (\<lambda>l. None),
                styleAttr = Inr None, inputValues = []\<rparr>,
        trace = []\<rparr> = Inr w1
     \<and> isSearchPanelVisible (page w1) = False
     \<and> toggleSearchPanel
       (\<lambda>e d. if e = Click FilterToggle
               then d\<lparr>styleAttr :=
                        Inr (if isSearchPanelVisible d then Some ''display: none;'' else None)\<rparr>
               else d) w1 = Inr w2
     \<and> isSearchPanelVisible (page w2) = True"
proof -
  let ?app = "(\<lambda>e d. if e = Click FilterToggle
               then d\<lparr>styleAttr :=
                        Inr (if isSearchPanelVisible d then Some ''display: none;'' else None)\<rparr>
               else d) :: app"
  let ?w = "\<lparr>page = \<lparr>matches = (\<lambda>l. 1), visible = (\<lambda>l. True), textContent = (\<lambda>l. None),
                styleAttr = Inr None, inputValues = []\<rparr>,
        trace = []\<rparr>"
  have contract: "togglesInlineDisplay ?app"
    by (simp add: togglesInlineDisplay_def)
  have button: "visible (page ?w) FilterToggle" by simp
  have shown: "isSearchPanelVisible (page ?w)"
    by (simp add: isSearchPanelVisible_def isSearchPanelVisible_try_def truthy_def)
  from toggleSearchPanel_involution [of ?app ?w] contract button shown show ?thesis
    by blast
qed

theorem toggleSearchPanel_hidden_button_counterexample:
  "isSearchPanelVisible
     \<lparr>matches = (\<lambda>l. 1), visible = (\<lambda>l. l \<noteq> FilterToggle), textContent = (\<lambda>l. None),
      styleAttr = Inr None, inputValues = []\<rparr>
   \<and> toggleSearchPanel
       (\<lambda>e d. if e = Click FilterToggle
               then d\<lparr>styleAttr :=
                        Inr (if isSearchPanelVisible d then Some ''display: none;'' else None)\<rparr>
               else d)
       \<lparr>page = \<lparr>matches = (\<lambda>l. 1), visible = (\<lambda>l. l \<noteq> FilterToggle),
                textContent = (\<lambda>l. None), styleAttr = Inr None, inputValues = []\<rparr>,
        trace = []\<rparr>
     = Inr \<lparr>page = \<lparr>matches = (\<lambda>l. 1), visible = (\<lambda>l. l \<noteq> FilterToggle),
                textContent = (\<lambda>l. None), styleAttr = Inr None, inputValues = []\<rparr>,
        trace = []\<rparr>
   \<and> testToggleSearchPanel
       (\<lambda>e d. if e = Click FilterToggle
               then d\<lparr>styleAttr :=
                        Inr (if isSearchPanelVisible d then Some ''display: none;'' else None)\<rparr>
               else d)
       \<lparr>page = \<lparr>matches = (\<lambda>l. 1), visible = (\<lambda>l. l \<noteq> FilterToggle),
                textContent = (\<lambda>l. None), styleAttr = Inr None, inputValues = []\<rparr>,
        trace = []\<rparr>
     = Inr (False,
            \<lparr>page = \<lparr>matches = (\<lambda>l. 1), visible = (\<lambda>l. l \<noteq> FilterToggle),
                textContent = (\<lambda>l. None), styleAttr = Inr None, inputValues = []\<rparr>,
             trace = [Elapse 500]\<rparr>)"
  by (simp add: isSearchPanelVisible_def isSearchPanelVisible_try_def truthy_def
      toggleSearchPanel_def testToggleSearchPanel_def waitForTimeout_def act_def Let_def)

end
